theory Spec2Isabelle
  imports Main "HOL-Library.Char_ord" "HOL-Library.List_Lexorder" "HOL-Library.Multiset"
begin

section \<open>Query engine: result rows and the rank-5 selection with ties\<close>

text \<open>
  The query program \<^verbatim>\<open>phase2_query.py\<close> sends an aggregation pipeline to the store and
  post-processes the returned list in Python. A grouped result document
  \<^verbatim>\<open>{'_id': key, 'count': n}\<close> (operations 1 and 3) is a record. A string is the
  UTF-8 encoding of the text, a list of bytes; the store's default collation compares
  strings byte by byte.
\<close>

record group_row =
  row_id :: string
  row_count :: nat

text \<open>
  Lines 86--101 of \<^verbatim>\<open>handle_common_words\<close> and lines 232--247 of
  \<^verbatim>\<open>handle_top_sources_2015\<close> are the same code up to variable names
  (\<^verbatim>\<open>included_words\<close>/\<^verbatim>\<open>included_sources\<close>, \<^verbatim>\<open>tied_words\<close>/\<^verbatim>\<open>tied_sources\<close>):
  \<^verbatim>\<open>
  top_5 = all_results[:5]
  if len(top_5) >= 5:
      fifth_count = top_5[4]['count']
      included = {item['_id'] for item in top_5[:4]}
      tied = [item for item in all_results
              if item['count'] == fifth_count and item['_id'] not in included]
      result = top_5[:4] + tied
  else:
      result = top_5
  \<close>
\<close>

definition top_with_ties :: "group_row list \<Rightarrow> group_row list" where
  "top_with_ties all_results =
     (let top_5 = take 5 all_results in
      if length top_5 \<ge> 5 then
        (let fifth_count = row_count (top_5 ! 4);
             included = set (map row_id (take 4 top_5));
             tied = filter (\<lambda>item. row_count item = fifth_count \<and> row_id item \<notin> included)
                      all_results
         in take 4 top_5 @ tied)
      else top_5)"

text \<open>
  Operation 4 returns documents \<^verbatim>\<open>{'title': .., 'publishedDate': .., 'date': ..}\<close>.
  A projected field can be absent from the document, present with the value null, or
  present with a value; Python's \<^verbatim>\<open>article.get('title', '')\<close> tells the three apart.
  An instant is a number of milliseconds since the epoch.
\<close>

type_synonym instant = int

datatype 'a field = Missing | Null | Val 'a

record article_row =
  row_title :: "string field"
  publishedDate :: "instant option"
  date :: "string option"

text \<open>
  \<^verbatim>\<open>(article.get('title', ''), article.get('publishedDate'))\<close>: a missing title reads as
  the empty string, a null title as \<^verbatim>\<open>None\<close>; a null \<^verbatim>\<open>publishedDate\<close> as \<^verbatim>\<open>None\<close>.
\<close>

definition article_key :: "article_row \<Rightarrow> string option \<times> instant option" where
  "article_key article =
     ((case row_title article of Missing \<Rightarrow> Some [] | Null \<Rightarrow> None | Val s \<Rightarrow> Some s),
      publishedDate article)"

text \<open>
  Lines 329--350 of \<^verbatim>\<open>handle_recent_by_source\<close>. The test
  \<^verbatim>\<open>if fifth_published_date:\<close> is false exactly for \<^verbatim>\<open>None\<close>: a datetime is always true.
\<close>

definition recent_with_ties :: "article_row list \<Rightarrow> article_row list" where
  "recent_with_ties all_articles =
     (let top_5 = take 5 all_articles in
      if length top_5 \<ge> 5 then
        (case publishedDate (top_5 ! 4) of
           Some fifth_published_date \<Rightarrow>
             (let included_keys = set (map article_key (take 4 top_5));
                  tied_articles =
                    filter (\<lambda>article. publishedDate article = Some fifth_published_date \<and>
                                       article_key article \<notin> included_keys)
                      all_articles
              in take 4 top_5 @ tied_articles)
         | None \<Rightarrow> top_5)
      else top_5)"

text \<open>
  The selection as the specification words it (section 4.3, steps 1--5), for an identity
  key \<open>ident\<close> and a primary key \<open>primary\<close>.
\<close>

definition top_n_with_ties_spec :: "('a \<Rightarrow> 'k) \<Rightarrow> ('a \<Rightarrow> 'p) \<Rightarrow> 'a list \<Rightarrow> 'a list" where
  "top_n_with_ties_spec ident primary xs =
     (if length xs \<le> 5 then xs
      else take 4 xs @
           filter (\<lambda>e. primary e = primary (xs ! 4) \<and> ident e \<notin> ident ` set (take 4 xs)) xs)"


section \<open>Strings\<close>

text \<open>
  \<^verbatim>\<open>$toLower\<close> of the store works on the bytes of the string: the ASCII letters
  A--Z move to a--z and every other byte stays.
\<close>

definition lower_char :: "char \<Rightarrow> char" where
  "lower_char c =
     (if CHR ''A'' \<le> c \<and> c \<le> CHR ''Z'' then char_of (of_char c + (32::nat)) else c)"

definition toLower :: "string \<Rightarrow> string" where
  "toLower s = map lower_char s"

text \<open>
  Python's own functions are parameters of the model, on the encoded text:
  \<^verbatim>\<open>str.strip\<close>, \<^verbatim>\<open>str.lower\<close>, and whether
  \<^verbatim>\<open>datetime.strptime(s, '%Y-%m-%d')\<close> returns or raises \<^verbatim>\<open>ValueError\<close>.
\<close>

record python =
  strip :: "string \<Rightarrow> string"
  lower :: "string \<Rightarrow> string"
  strptime_ok :: "string \<Rightarrow> bool"

text \<open>
  The character class \<^verbatim>\<open>[a-zA-Z0-9_-]\<close> of the tokenizer; no byte of a non-ASCII
  character is in it.
\<close>

definition word_char :: "char \<Rightarrow> bool" where
  "word_char c \<longleftrightarrow>
     (CHR ''a'' \<le> c \<and> c \<le> CHR ''z'') \<or> (CHR ''A'' \<le> c \<and> c \<le> CHR ''Z'') \<or>
     (CHR ''0'' \<le> c \<and> c \<le> CHR ''9'') \<or> c = CHR ''_'' \<or> c = CHR ''-''"

text \<open>
  \<^verbatim>\<open>$regexFindAll\<close> with a regex \<^verbatim>\<open>[...]+\<close> for a character class: at each position
  the greedy \<^verbatim>\<open>+\<close> takes the longest run of class characters, the search goes on
  behind the match, and a position with no match is passed over.
\<close>

function find_all :: "(char \<Rightarrow> bool) \<Rightarrow> string \<Rightarrow> string list" where
  "find_all cls [] = []"
| "find_all cls (c # cs) =
     (if cls c
      then takeWhile cls (c # cs) # find_all cls (dropWhile cls cs)
      else find_all cls cs)"
  by pat_completeness auto
termination
  by (relation "measure (\<lambda>(cls, text). length text)")
     (auto simp: length_dropWhile_le less_Suc_eq_le)

text \<open>The regex of line 57, \<^verbatim>\<open>[a-zA-Z0-9_-]+\<close>.\<close>

definition regexFindAll :: "string \<Rightarrow> string list" where
  "regexFindAll text = find_all word_char text"

section \<open>The stored articles and the store's date functions\<close>

text \<open>
  \<^verbatim>\<open>published\<close> is stored as a native date, as a string, or is null or missing.
  \<^verbatim>\<open>content\<close> is a string or null (\<^verbatim>\<open>$ifNull\<close> reads both null and missing as
  absent); \<^verbatim>\<open>media-type\<close> and \<^verbatim>\<open>source\<close> are strings.
\<close>

datatype pubval = Native instant | Raw string | Absent

record article =
  content :: "string option"
  title :: "string field"
  mediaType :: string
  source :: string
  published :: pubval

text \<open>
  The store's own functions are parameters: \<^verbatim>\<open>$toDate\<close> on a string (\<open>None\<close> when
  the string does not parse, which fails the whole aggregation), \<^verbatim>\<open>$dateToString\<close>
  with the format \<^verbatim>\<open>%Y-%m-%d\<close>, and \<^verbatim>\<open>$year\<close>.
\<close>

record mongo =
  toDate :: "string \<Rightarrow> instant option"
  dateToString :: "instant \<Rightarrow> string"
  year :: "instant \<Rightarrow> int"

datatype error = OperationFailure | ProcessingFailed

text \<open>
  The expression used by operations 2, 3 and 4 wherever \<^verbatim>\<open>published\<close> is read:
  \<^verbatim>\<open>
  {'$cond': {'if': {'$eq': [{'$type': '$published'}, 'date']},
             'then': '$published', 'else': {'$toDate': '$published'}}}
  \<close>
  \<^verbatim>\<open>$toDate\<close> of null or of a missing field is null.
\<close>

definition published_date :: "mongo \<Rightarrow> pubval \<Rightarrow> error + instant option" where
  "published_date m p =
     (case p of
        Native t \<Rightarrow> Inr (Some t)
      | Raw s \<Rightarrow> (case toDate m s of None \<Rightarrow> Inl OperationFailure | Some t \<Rightarrow> Inr (Some t))
      | Absent \<Rightarrow> Inr None)"

text \<open>\<^verbatim>\<open>$dateToString\<close> and \<^verbatim>\<open>$year\<close> of null are null.\<close>

definition date_only :: "mongo \<Rightarrow> pubval \<Rightarrow> error + string option" where
  "date_only m p =
     (case published_date m p of Inl e \<Rightarrow> Inl e | Inr d \<Rightarrow> Inr (map_option (dateToString m) d))"

definition published_year :: "mongo \<Rightarrow> pubval \<Rightarrow> error + int option" where
  "published_year m p =
     (case published_date m p of Inl e \<Rightarrow> Inl e | Inr d \<Rightarrow> Inr (map_option (year m) d))"

text \<open>A stage that evaluates an expression on every document fails when one evaluation fails.\<close>

fun stage :: "('a \<Rightarrow> error + 'b) \<Rightarrow> 'a list \<Rightarrow> error + 'b list" where
  "stage f [] = Inr []"
| "stage f (x # xs) =
     (case f x of
        Inl e \<Rightarrow> Inl e
      | Inr y \<Rightarrow> (case stage f xs of Inl e \<Rightarrow> Inl e | Inr ys \<Rightarrow> Inr (y # ys)))"

section \<open>Grouping and sorting stages\<close>

text \<open>
  \<^verbatim>\<open>{'$group': {'_id': key, 'count': {'$sum': 1}}}\<close>: one row for each distinct key,
  with the number of input documents that have it. The store does not specify the order
  of the rows.
\<close>

definition group_count :: "string list \<Rightarrow> group_row list" where
  "group_count ks = map (\<lambda>k. \<lparr>row_id = k, row_count = count_list ks k\<rparr>) (remdups ks)"

text \<open>
  \<^verbatim>\<open>$sort\<close>: an insertion sort for the order \<open>le\<close> that leaves documents with equal
  sort keys in the order they arrive in.
\<close>

fun insort_by :: "('a \<Rightarrow> 'a \<Rightarrow> bool) \<Rightarrow> 'a \<Rightarrow> 'a list \<Rightarrow> 'a list" where
  "insort_by le x [] = [x]"
| "insort_by le x (y # ys) = (if le x y then x # y # ys else y # insort_by le x ys)"

definition sort_by :: "('a \<Rightarrow> 'a \<Rightarrow> bool) \<Rightarrow> 'a list \<Rightarrow> 'a list" where
  "sort_by le xs = foldr (insort_by le) xs []"

text \<open>\<^verbatim>\<open>{'$sort': {'count': -1, '_id': 1}}\<close>\<close>

definition count_desc_id_asc :: "group_row \<Rightarrow> group_row \<Rightarrow> bool" where
  "count_desc_id_asc a b \<longleftrightarrow>
     row_count a > row_count b \<or> (row_count a = row_count b \<and> row_id a \<le> row_id b)"

text \<open>\<^verbatim>\<open>{'$sort': {'publishedDate': -1}}\<close>: null sorts below every date, so it comes last.\<close>

definition published_desc :: "article_row \<Rightarrow> article_row \<Rightarrow> bool" where
  "published_desc a b \<longleftrightarrow>
     (case publishedDate b of
        None \<Rightarrow> True
      | Some tb \<Rightarrow> (case publishedDate a of None \<Rightarrow> False | Some ta \<Rightarrow> tb \<le> ta))"

section \<open>Operation 1: most common words by media type\<close>

definition common_words_pipeline :: "string \<Rightarrow> article list \<Rightarrow> group_row list" where
  "common_words_pipeline media_type collection =
     (let matched = filter (\<lambda>d. toLower (mediaType d) = media_type) collection;
          texts = map (\<lambda>d. toLower (case content d of None \<Rightarrow> [] | Some c \<Rightarrow> c)) matched;
          words = concat (map regexFindAll texts)
      in sort_by count_desc_id_asc (group_count words))"

datatype words_outcome = InvalidMediaType | NoWords | TopWords "group_row list"

definition handle_common_words :: "python \<Rightarrow> article list \<Rightarrow> string \<Rightarrow> words_outcome" where
  "handle_common_words py collection input =
     (let media_type = lower py (strip py input) in
      if media_type \<notin> set [''news'', ''blog''] then InvalidMediaType
      else
        (let all_results = common_words_pipeline media_type collection in
         if all_results = [] then NoWords else TopWords (top_with_ties all_results)))"

section \<open>Operation 2: article count difference between news and blogs\<close>

record day_row =
  mediaTypeLower :: string
  dateOnly :: "string option"

definition article_count_pipeline ::
    "mongo \<Rightarrow> string \<Rightarrow> article list \<Rightarrow> error + group_row list" where
  "article_count_pipeline m date_str collection =
     (case stage (\<lambda>d. case date_only m (published d) of
                        Inl e \<Rightarrow> Inl e
                      | Inr s \<Rightarrow> Inr \<lparr>mediaTypeLower = toLower (mediaType d), dateOnly = s\<rparr>)
             collection of
        Inl e \<Rightarrow> Inl e
      | Inr projected \<Rightarrow>
          (let matched = filter (\<lambda>r. dateOnly r = Some date_str \<and>
                                       mediaTypeLower r \<in> set [''news'', ''blog'']) projected
           in Inr (group_count (map mediaTypeLower matched))))"

datatype comparison = NewsMore nat | BlogsMore nat | Same

datatype count_outcome = InvalidDate | NoArticles | Counts nat nat comparison

text \<open>The loop of lines 169--175 over the grouped rows, on the pair of counters.\<close>

definition assign_count :: "nat \<times> nat \<Rightarrow> group_row \<Rightarrow> nat \<times> nat" where
  "assign_count counts item =
     (if row_id item = ''news'' then (row_count item, snd counts)
      else if row_id item = ''blog'' then (fst counts, row_count item)
      else counts)"

text \<open>An aggregation that fails raises out of the handler.\<close>

definition handle_article_count ::
    "python \<Rightarrow> mongo \<Rightarrow> article list \<Rightarrow> string \<Rightarrow> error + count_outcome" where
  "handle_article_count py m collection input =
     (let date_str = strip py input in
      if \<not> strptime_ok py date_str then Inr InvalidDate
      else
        (case article_count_pipeline m date_str collection of
           Inl e \<Rightarrow> Inl e
         | Inr results \<Rightarrow>
             if results = [] then Inr NoArticles
             else
               (let (news_count, blog_count) = foldl assign_count (0, 0) results in
                Inr (Counts news_count blog_count
                      (if news_count > blog_count then NewsMore (news_count - blog_count)
                       else if blog_count > news_count then BlogsMore (blog_count - news_count)
                       else Same)))))"

section \<open>Operation 3: top sources of 2015\<close>

definition top_sources_pipeline :: "mongo \<Rightarrow> article list \<Rightarrow> error + group_row list" where
  "top_sources_pipeline m collection =
     (case stage (\<lambda>d. case published_year m (published d) of
                        Inl e \<Rightarrow> Inl e
                      | Inr y \<Rightarrow> Inr (d, y = Some 2015))
             collection of
        Inl e \<Rightarrow> Inl e
      | Inr tested \<Rightarrow>
          Inr (sort_by count_desc_id_asc
                (group_count (map (\<lambda>(d, keep). source d) (filter snd tested)))))"

datatype sources_outcome = NoSources | TopSources "group_row list"

definition handle_top_sources_2015 :: "mongo \<Rightarrow> article list \<Rightarrow> error + sources_outcome" where
  "handle_top_sources_2015 m collection =
     (case top_sources_pipeline m collection of
        Inl e \<Rightarrow> Inl e
      | Inr all_results \<Rightarrow>
          if all_results = [] then Inr NoSources
          else Inr (TopSources (top_with_ties all_results)))"

section \<open>Operation 4: most recent articles of a source\<close>

definition recent_pipeline :: "mongo \<Rightarrow> string \<Rightarrow> article list \<Rightarrow> error + article_row list" where
  "recent_pipeline m source_literal collection =
     (let matched = filter (\<lambda>d. toLower (source d) = source_literal) collection in
      case stage (\<lambda>d. case published_date m (published d) of
                        Inl e \<Rightarrow> Inl e
                      | Inr t \<Rightarrow>
                          Inr \<lparr>row_title = title d, publishedDate = t,
                               date = map_option (dateToString m) t\<rparr>)
             matched of
        Inl e \<Rightarrow> Inl e
      | Inr projected \<Rightarrow> Inr (sort_by published_desc projected))"

datatype recent_outcome = EmptySourceName | SourceNotFound | Recent "article_row list"

definition handle_recent_by_source ::
    "python \<Rightarrow> mongo \<Rightarrow> article list \<Rightarrow> string \<Rightarrow> error + recent_outcome" where
  "handle_recent_by_source py m collection input =
     (let source_name = strip py input in
      if source_name = [] then Inr EmptySourceName
      else
        (case recent_pipeline m (lower py source_name) collection of
           Inl e \<Rightarrow> Inl e
         | Inr all_articles \<Rightarrow>
             if all_articles = [] then Inr SourceNotFound
             else Inr (Recent (recent_with_ties all_articles))))"

section \<open>Ingestion\<close>

text \<open>
  \<^verbatim>\<open>load-json.py\<close>. What \<^verbatim>\<open>json.loads\<close> returns is a JSON value; a float keeps its
  literal text, since the loader never computes with it.
\<close>

datatype json =
  JNull | JBool bool | JInt int | JFloat string | JStr string
  | JArr "json list" | JObj "(string \<times> json) list"

definition BATCH_SIZE :: nat where
  "BATCH_SIZE = 1000"

definition required_fields :: "string list" where
  "required_fields = [''id'', ''content'', ''title'', ''media-type'', ''source'', ''published'']"

text \<open>\<^verbatim>\<open>needle in text\<close> on two strings is the substring test.\<close>

fun substring_of :: "string \<Rightarrow> string \<Rightarrow> bool" where
  "substring_of needle [] = (needle = [])"
| "substring_of needle (c # cs) =
     (take (length needle) (c # cs) = needle \<or> substring_of needle cs)"

text \<open>
  \<^verbatim>\<open>field in document\<close>: key membership in a dict, element membership in a list, the
  substring test in a string, and a \<^verbatim>\<open>TypeError\<close> (\<open>None\<close>) for every other value.
\<close>

definition field_in :: "string \<Rightarrow> json \<Rightarrow> bool option" where
  "field_in fld document =
     (case document of
        JObj kvs \<Rightarrow> Some (fld \<in> set (map fst kvs))
      | JArr xs \<Rightarrow> Some (JStr fld \<in> set xs)
      | JStr s \<Rightarrow> Some (substring_of fld s)
      | _ \<Rightarrow> None)"

text \<open>
  \<^verbatim>\<open>all(field in document for field in required_fields)\<close> stops at the first false
  test and raises at the first test that raises.
\<close>

fun all_fields_in :: "string list \<Rightarrow> json \<Rightarrow> bool option" where
  "all_fields_in [] document = Some True"
| "all_fields_in (f # fs) document =
     (case field_in f document of
        None \<Rightarrow> None
      | Some False \<Rightarrow> Some False
      | Some True \<Rightarrow> all_fields_in fs document)"

datatype warning = MissingFields nat | InvalidJSON nat | ProcessingError nat

text \<open>
  The loader's variables, with the bulk inserts issued so far (\<open>calls\<close>, each with the
  batch passed to \<^verbatim>\<open>insert_many\<close>), the progress lines printed for the flushed batches
  (\<open>reported\<close>: batch number and size) and the warnings written to the error stream.
\<close>

record loader =
  batch :: "json list"
  total_documents :: nat
  batch_count :: nat
  calls :: "json list list"
  reported :: "(nat \<times> nat) list"
  warnings :: "warning list"

definition initial_loader :: loader where
  "initial_loader =
     \<lparr>batch = [], total_documents = 0, batch_count = 0, calls = [], reported = [],
      warnings = []\<rparr>"

text \<open>
  The body of the loop (lines 64--101) for one numbered line. \<open>loads\<close> is
  \<^verbatim>\<open>json.loads\<close> (\<open>None\<close> for a \<^verbatim>\<open>JSONDecodeError\<close>); \<open>insert_ok k b\<close> says whether
  the bulk insert of batch \<open>b\<close>, issued after \<open>k\<close> earlier ones, returns. An insert that
  raises inside the loop is caught by the handler of line 98, which leaves the batch as
  it is.
\<close>

definition process_line ::
    "python \<Rightarrow> (string \<Rightarrow> json option) \<Rightarrow> (nat \<Rightarrow> json list \<Rightarrow> bool) \<Rightarrow>
       loader \<Rightarrow> nat \<times> string \<Rightarrow> loader" where
  "process_line py loads insert_ok st numbered =
     (let line_num = fst numbered; line = strip py (snd numbered) in
      if line = [] then st
      else
        (case loads line of
           None \<Rightarrow> st\<lparr>warnings := warnings st @ [InvalidJSON line_num]\<rparr>
         | Some document \<Rightarrow>
             (case all_fields_in required_fields document of
                None \<Rightarrow> st\<lparr>warnings := warnings st @ [ProcessingError line_num]\<rparr>
              | Some False \<Rightarrow> st\<lparr>warnings := warnings st @ [MissingFields line_num]\<rparr>
              | Some True \<Rightarrow>
                  (let b = batch st @ [document] in
                   if length b \<ge> BATCH_SIZE then
                     (if insert_ok (length (calls st)) b then
                        st\<lparr>batch := [],
                           total_documents := total_documents st + length b,
                           batch_count := batch_count st + 1,
                           calls := calls st @ [b],
                           reported := reported st @ [(batch_count st + 1, length b)]\<rparr>
                      else
                        st\<lparr>batch := b,
                           calls := calls st @ [b],
                           warnings := warnings st @ [ProcessingError line_num]\<rparr>)
                   else st\<lparr>batch := b\<rparr>))))"

definition read_lines ::
    "python \<Rightarrow> (string \<Rightarrow> json option) \<Rightarrow> (nat \<Rightarrow> json list \<Rightarrow> bool) \<Rightarrow>
       string list \<Rightarrow> loader" where
  "read_lines py loads insert_ok lines =
     foldl (process_line py loads insert_ok) initial_loader (enumerate 1 lines)"

text \<open>
  The \<^verbatim>\<open>for\<close> statement of line 64 reads and decodes the file as it goes: it yields
  the lines of the input and then ends, or it raises after some lines (a read error, or
  bytes that are not UTF-8). That happens outside the \<^verbatim>\<open>try\<close> of line 71.
\<close>

datatype reading = EndOfFile | ReadError

text \<open>
  Lines 58--117: the loop over the lines the file yields, then the flush of what remains.
  A read error, or a failure of that last insert, reaches the handler of line 112, which
  ends the program with status 1; after a read error the remaining batch is not flushed.
\<close>

definition main ::
    "python \<Rightarrow> (string \<Rightarrow> json option) \<Rightarrow> (nat \<Rightarrow> json list \<Rightarrow> bool) \<Rightarrow>
       string list \<Rightarrow> reading \<Rightarrow> error + loader" where
  "main py loads insert_ok lines ending =
     (let st = read_lines py loads insert_ok lines in
      case ending of
        ReadError \<Rightarrow> Inl ProcessingFailed
      | EndOfFile \<Rightarrow>
          if batch st \<noteq> [] then
            (if insert_ok (length (calls st)) (batch st) then
               Inr (st\<lparr>total_documents := total_documents st + length (batch st),
                       batch_count := batch_count st + 1,
                       calls := calls st @ [batch st],
                       reported := reported st @ [(batch_count st + 1, length (batch st))]\<rparr>)
             else Inl ProcessingFailed)
          else Inr st)"

section \<open>Example data\<close>

text \<open>Small result lists, a store instance and a collection, used to run the theorems below.\<close>

text \<open>
  An instance of Python's functions, for text made of ASCII and of the accented Latin
  letters that UTF-8 writes as the byte \<open>0xC3\<close> and one more byte. \<^verbatim>\<open>strip\<close> removes the
  ASCII white space at both ends. \<^verbatim>\<open>lower\<close> lowers A--Z and the accented capitals
  (\<open>0xC3 0x80\<close> to \<open>0xC3 0x9E\<close>, the multiplication sign \<open>0xC3 0x97\<close> apart), as
  \<^verbatim>\<open>str.lower\<close> does.
\<close>

definition ascii_space :: "char \<Rightarrow> bool" where
  "ascii_space c \<longleftrightarrow>
     c \<in> set [CHR '' '', CHR 0x09, CHR 0x0A, CHR 0x0B, CHR 0x0C, CHR 0x0D,
               CHR 0x1C, CHR 0x1D, CHR 0x1E, CHR 0x1F]"

fun utf8_lower :: "string \<Rightarrow> string" where
  "utf8_lower [] = []"
| "utf8_lower [c] = [lower_char c]"
| "utf8_lower (c # d # cs) =
     (if c = CHR 0xC3 \<and> CHR 0x80 \<le> d \<and> d \<le> CHR 0x9E \<and> d \<noteq> CHR 0x97
      then c # char_of (of_char d + (32::nat)) # utf8_lower cs
      else lower_char c # utf8_lower (d # cs))"

text \<open>
  \<^verbatim>\<open>datetime.strptime(s, '%Y-%m-%d')\<close> returns for a year of four digits, a month of
  one or two digits from 1 to 12, and a day of one or two digits (or a space and one
  digit) that the month has: the leading zero of month and day is optional.
\<close>

fun split_on :: "char \<Rightarrow> string \<Rightarrow> string list" where
  "split_on sep [] = [[]]"
| "split_on sep (c # cs) =
     (if c = sep then [] # split_on sep cs
      else (case split_on sep cs of [] \<Rightarrow> [[c]] | part # parts \<Rightarrow> (c # part) # parts))"

definition is_digit :: "char \<Rightarrow> bool" where
  "is_digit c \<longleftrightarrow> CHR ''0'' \<le> c \<and> c \<le> CHR ''9''"

definition number_of :: "string \<Rightarrow> nat" where
  "number_of ds = foldl (\<lambda>n c. 10 * n + (of_char c - 48)) 0 ds"

definition days_in_month :: "nat \<Rightarrow> nat \<Rightarrow> nat" where
  "days_in_month y mo =
     (if mo \<in> set [4, 6, 9, 11] then 30
      else if mo = 2 then
        (if y mod 4 = 0 \<and> (y mod 100 \<noteq> 0 \<or> y mod 400 = 0) then 29 else 28)
      else 31)"

definition strptime_ymd :: "string \<Rightarrow> bool" where
  "strptime_ymd s =
     (case split_on CHR ''-'' s of
        [y, mo, d] \<Rightarrow>
          length y = 4 \<and> list_all is_digit y \<and> 1 \<le> number_of y \<and>
          length mo \<in> set [1, 2] \<and> list_all is_digit mo \<and>
          1 \<le> number_of mo \<and> number_of mo \<le> 12 \<and>
          (let day = (if length d = 2 \<and> hd d = CHR '' '' then tl d else d) in
           length d \<in> set [1, 2] \<and> list_all is_digit day \<and>
           1 \<le> number_of day \<and> number_of day \<le> days_in_month (number_of y) (number_of mo))
      | _ \<Rightarrow> False)"

definition example_python :: python where
  "example_python =
     \<lparr>strip = (\<lambda>s. rev (dropWhile ascii_space (rev (dropWhile ascii_space s)))),
      lower = utf8_lower,
      strptime_ok = strptime_ymd\<rparr>"

definition undated_rows :: "article_row list" where
  "undated_rows =
     [\<lparr>row_title = Val ''a'', publishedDate = None, date = None\<rparr>,
      \<lparr>row_title = Val ''b'', publishedDate = None, date = None\<rparr>,
      \<lparr>row_title = Val ''c'', publishedDate = None, date = None\<rparr>,
      \<lparr>row_title = Val ''d'', publishedDate = None, date = None\<rparr>,
      \<lparr>row_title = Val ''e'', publishedDate = None, date = None\<rparr>,
      \<lparr>row_title = Val ''f'', publishedDate = None, date = None\<rparr>]"

definition tied_rows :: "group_row list" where
  "tied_rows =
     [\<lparr>row_id = ''a'', row_count = 9\<rparr>, \<lparr>row_id = ''b'', row_count = 7\<rparr>,
      \<lparr>row_id = ''c'', row_count = 7\<rparr>, \<lparr>row_id = ''d'', row_count = 3\<rparr>,
      \<lparr>row_id = ''e'', row_count = 3\<rparr>, \<lparr>row_id = ''f'', row_count = 3\<rparr>,
      \<lparr>row_id = ''g'', row_count = 1\<rparr>]"

definition dated_rows :: "article_row list" where
  "dated_rows =
     [\<lparr>row_title = Val ''a'', publishedDate = Some 90, date = Some ''d9''\<rparr>,
      \<lparr>row_title = Val ''b'', publishedDate = Some 70, date = Some ''d7''\<rparr>,
      \<lparr>row_title = Val ''c'', publishedDate = Some 70, date = Some ''d7''\<rparr>,
      \<lparr>row_title = Val ''d'', publishedDate = Some 30, date = Some ''d3''\<rparr>,
      \<lparr>row_title = Val ''e'', publishedDate = Some 30, date = Some ''d3''\<rparr>,
      \<lparr>row_title = Val ''f'', publishedDate = Some 30, date = Some ''d3''\<rparr>,
      \<lparr>row_title = Val ''g'', publishedDate = None, date = None\<rparr>]"

definition example_mongo :: mongo where
  "example_mongo =
     \<lparr>toDate = (\<lambda>s. if s = ''2015-09-01T10:00:00Z'' then Some 1441101600000
                     else if s = ''2016-01-01T00:00:00Z'' then Some 1451606400000
                     else None),
      dateToString = (\<lambda>t. if t = 1441101600000 then ''2015-09-01''
                           else if t = 1451606400000 then ''2016-01-01'' else ''1970-01-01''),
      year = (\<lambda>t. if t = 1441101600000 then 2015
                   else if t = 1451606400000 then 2016 else 1970)\<rparr>"

definition undated_collection :: "article list" where
  "undated_collection =
     map (\<lambda>t. \<lparr>content = Some ''text'', title = Val t, mediaType = ''news'', source = ''BBC'',
               published = Absent\<rparr>)
       [''a'', ''b'', ''c'', ''d'', ''e'', ''f'']"

text \<open>
  The document a line contributes to a batch, if any: the line is not blank, parses, and
  passes the test of line 77.
\<close>

definition accepted :: "python \<Rightarrow> (string \<Rightarrow> json option) \<Rightarrow> string \<Rightarrow> json option" where
  "accepted py loads raw =
     (let line = strip py raw in
      if line = [] then None
      else (case loads line of
              None \<Rightarrow> None
            | Some document \<Rightarrow>
                if all_fields_in required_fields document = Some True then Some document
                else None))"

text \<open>The valid records of an input, in the order of their lines.\<close>

definition valid_records ::
    "python \<Rightarrow> (string \<Rightarrow> json option) \<Rightarrow> string list \<Rightarrow> json list" where
  "valid_records py loads lines = List.map_filter (accepted py loads) lines"

text \<open>
  The loader's invariant while every bulk insert succeeds: the flushed batches and the
  current batch hold the accepted documents in order, each flushed batch is full, and the
  counters agree with the flushes.
\<close>

definition flushed_in_full :: "loader \<Rightarrow> json list \<Rightarrow> bool" where
  "flushed_in_full st docs \<longleftrightarrow>
     concat (calls st) @ batch st = docs \<and>
     (\<forall>c \<in> set (calls st). length c = BATCH_SIZE) \<and>
     length (batch st) < BATCH_SIZE \<and>
     total_documents st = BATCH_SIZE * length (calls st) \<and>
     batch_count st = length (calls st) \<and>
     map snd (reported st) = map length (calls st)"

text \<open>
  A stand-in for \<^verbatim>\<open>json.loads\<close> on a few line texts: an object with the six fields,
  an object without a title, the number 7, and the JSON string (in double quotes) that
  spells the names of the six fields.
\<close>

definition names_text :: string where
  "names_text = ''id content title media-type source published''"

definition names_line :: string where
  "names_line = CHR 0x22 # names_text @ [CHR 0x22]"

definition valid_document :: json where
  "valid_document =
     JObj [(''id'', JInt 1), (''content'', JStr ''Cats. cats, CATS!''), (''title'', JStr ''Cats''),
           (''media-type'', JStr ''News''), (''source'', JStr ''BBC''),
           (''published'', JStr ''2015-09-01T10:00:00Z'')]"

definition example_loads :: "string \<Rightarrow> json option" where
  "example_loads line =
     (if line = ''full'' then Some valid_document
      else if line = ''untitled'' then
        Some (JObj [(''id'', JInt 2), (''content'', JStr ''text''), (''media-type'', JStr ''blog''),
                    (''source'', JStr ''BBC''), (''published'', JNull)])
      else if line = ''7'' then Some (JInt 7)
      else if line = names_line then Some (JStr names_text)
      else None)"

text \<open>
  Two stores: one accepts every bulk insert; the other does what the driver's
  \<^verbatim>\<open>insert_many\<close> does with a batch that holds a value which is not a dict: it raises
  \<^verbatim>\<open>TypeError\<close> and inserts nothing.
\<close>

definition dict_store :: "nat \<Rightarrow> json list \<Rightarrow> bool" where
  "dict_store k b = list_all (\<lambda>d. case d of JObj kvs \<Rightarrow> True | _ \<Rightarrow> False) b"

definition store_up :: "nat \<Rightarrow> json list \<Rightarrow> bool" where
  "store_up k b = True"

definition accepted_count ::
    "python \<Rightarrow> (string \<Rightarrow> json option) \<Rightarrow> string list \<Rightarrow> nat" where
  "accepted_count py loads lines = length (valid_records py loads lines)"

text \<open>
  The number of articles of a collection whose canonical day is \<open>day\<close> and whose media
  type, in lower case, is \<open>kind\<close>.
\<close>

definition articles_on :: "mongo \<Rightarrow> string \<Rightarrow> string \<Rightarrow> article list \<Rightarrow> nat" where
  "articles_on m day kind collection =
     length (filter (\<lambda>d. date_only m (published d) = Inr (Some day) \<and>
                          toLower (mediaType d) = kind) collection)"

text \<open>Every \<^verbatim>\<open>published\<close> value of the collection resolves: no string fails to parse.\<close>

definition resolvable :: "mongo \<Rightarrow> article list \<Rightarrow> bool" where
  "resolvable m collection \<longleftrightarrow>
     list_all (\<lambda>d. \<not> isl (published_date m (published d))) collection"

definition example_article :: "string \<Rightarrow> string \<Rightarrow> string \<Rightarrow> pubval \<Rightarrow> article" where
  "example_article t mt src p =
     \<lparr>content = Some ''Cats. cats, CATS!'', title = Val t, mediaType = mt, source = src,
      published = p\<rparr>"

definition balanced_collection :: "article list" where
  "balanced_collection =
     [example_article ''n1'' ''news'' ''BBC'' (Raw ''2015-09-01T10:00:00Z''),
      example_article ''n2'' ''NEWS'' ''bbc'' (Native 1441101600000),
      example_article ''n3'' ''News'' ''CNN'' (Raw ''2015-09-01T10:00:00Z''),
      example_article ''b1'' ''blog'' ''BBC'' (Native 1441101600000),
      example_article ''b2'' ''Blog'' ''Slate'' (Raw ''2015-09-01T10:00:00Z''),
      example_article ''b3'' ''BLOG'' ''BBC'' (Native 1441101600000),
      example_article ''v1'' ''video'' ''BBC'' (Native 1441101600000),
      example_article ''n4'' ''news'' ''BBC'' (Raw ''2016-01-01T00:00:00Z''),
      example_article ''n5'' ''news'' ''BBC'' Absent]"

text \<open>The keys the grouping stage of operation 2 receives.\<close>

definition day_keys :: "mongo \<Rightarrow> string \<Rightarrow> article list \<Rightarrow> string list" where
  "day_keys m date_str collection =
     map (\<lambda>d. toLower (mediaType d))
       (filter (\<lambda>d. date_only m (published d) = Inr (Some date_str) \<and>
                    (toLower (mediaType d) = ''news'' \<or> toLower (mediaType d) = ''blog''))
          collection)"

text \<open>Two articles of one source published at the same instant.\<close>

definition same_instant_pair :: "article list" where
  "same_instant_pair =
     [example_article ''first'' ''news'' ''BBC'' (Native 1441101600000),
      example_article ''second'' ''news'' ''BBC'' (Raw ''2015-09-01T10:00:00Z'')]"

text \<open>The source name "Ecole" with an acute accent on its capital, in UTF-8.\<close>

definition ecole :: string where
  "ecole = CHR 0xC3 # CHR 0x89 # ''cole''"

definition ecole_collection :: "article list" where
  "ecole_collection = [example_article ''rentree'' ''news'' ecole (Native 1441101600000)]"

text \<open>
  Tokenization as the specification words it, for a character class: the tokens of a text
  are its maximal runs of class characters, from left to right. A text without class
  characters has no token; otherwise the first token comes behind a gap without class
  characters, is not empty, is made of class characters, and ends at the end of the text
  or before a character outside the class; the other tokens are those of the rest.
\<close>

inductive runs :: "(char \<Rightarrow> bool) \<Rightarrow> string \<Rightarrow> string list \<Rightarrow> bool" for cls where
  no_token: "\<forall>c \<in> set str. \<not> cls c \<Longrightarrow> runs cls str []"
| token: "\<forall>c \<in> set gap. \<not> cls c \<Longrightarrow> tok \<noteq> [] \<Longrightarrow> \<forall>c \<in> set tok. cls c \<Longrightarrow>
          rest = [] \<or> \<not> cls (hd rest) \<Longrightarrow> runs cls rest toks \<Longrightarrow>
          runs cls (gap @ tok @ rest) (tok # toks)"

text \<open>
  The words operation 1 counts: the tokens of the lowered contents of the articles whose
  media type, lowered, is the selector, in the order of the collection.
\<close>

definition matching_words :: "string \<Rightarrow> article list \<Rightarrow> string list" where
  "matching_words media_type collection =
     concat (map (\<lambda>d. regexFindAll (toLower (case content d of None \<Rightarrow> [] | Some c \<Rightarrow> c)))
              (filter (\<lambda>d. toLower (mediaType d) = media_type) collection))"

text \<open>The order of \<^verbatim>\<open>{'count': -1, '_id': 1}\<close> between two different groups.\<close>

definition ranked_before :: "group_row \<Rightarrow> group_row \<Rightarrow> bool" where
  "ranked_before a b \<longleftrightarrow>
     row_count a > row_count b \<or> (row_count a = row_count b \<and> row_id a < row_id b)"

text \<open>
  A class that holds every letter of a text whose non-ASCII characters are letters: the
  class of the tokenizer and every byte of a non-ASCII character.
\<close>

definition letter_class :: "char \<Rightarrow> bool" where
  "letter_class c \<longleftrightarrow> word_char c \<or> CHR 0x80 \<le> c"

text \<open>The word "cafe" with an acute accent on its last letter, in UTF-8.\<close>

definition cafe :: string where
  "cafe = ''caf'' @ [CHR 0xC3, CHR 0xA9]"

definition cats_collection :: "article list" where
  "cats_collection =
     [\<lparr>content = Some ''Cats. cats, CATS!'', title = Val ''t1'', mediaType = ''News'',
       source = ''BBC'', published = Absent\<rparr>,
      \<lparr>content = None, title = Val ''t2'', mediaType = ''news'', source = ''BBC'',
       published = Absent\<rparr>,
      \<lparr>content = Some [], title = Val ''t3'', mediaType = ''NEWS'', source = ''BBC'',
       published = Absent\<rparr>,
      \<lparr>content = Some ''dogs'', title = Val ''t4'', mediaType = ''blog'', source = ''BBC'',
       published = Absent\<rparr>]"

definition cafe_collection :: "article list" where
  "cafe_collection =
     [\<lparr>content = Some cafe, title = Val ''t'', mediaType = ''news'', source = ''BBC'',
       published = Absent\<rparr>]"

text \<open>
  Two stored \<^verbatim>\<open>published\<close> values are the same instant in two representations when one
  is a native date and the other a string that the store parses to that date; otherwise
  they are the same when they are equal.
\<close>

fun same_published :: "mongo \<Rightarrow> pubval \<Rightarrow> pubval \<Rightarrow> bool" where
  "same_published m (Native t) (Raw s) = (toDate m s = Some t)"
| "same_published m (Raw s) (Native t) = (toDate m s = Some t)"
| "same_published m p q = (p = q)"

text \<open>Two articles that differ at most in the representation of \<^verbatim>\<open>published\<close>.\<close>

definition same_article :: "mongo \<Rightarrow> article \<Rightarrow> article \<Rightarrow> bool" where
  "same_article m a b \<longleftrightarrow>
     content a = content b \<and> title a = title b \<and> mediaType a = mediaType b \<and>
     source a = source b \<and> same_published m (published a) (published b)"

definition native_collection :: "article list" where
  "native_collection =
     [example_article ''n1'' ''news'' ''BBC'' (Native 1441101600000),
      example_article ''b1'' ''Blog'' ''BBC'' (Native 1441101600000),
      example_article ''n2'' ''NEWS'' ''CNN'' (Native 1451606400000),
      example_article ''n3'' ''news'' ''BBC'' (Native 1441101600000),
      example_article ''n4'' ''news'' ''BBC'' Absent]"

definition string_collection :: "article list" where
  "string_collection =
     [example_article ''n1'' ''news'' ''BBC'' (Raw ''2015-09-01T10:00:00Z''),
      example_article ''b1'' ''Blog'' ''BBC'' (Raw ''2015-09-01T10:00:00Z''),
      example_article ''n2'' ''NEWS'' ''CNN'' (Raw ''2016-01-01T00:00:00Z''),
      example_article ''n3'' ''news'' ''BBC'' (Native 1441101600000),
      example_article ''n4'' ''news'' ''BBC'' Absent]"

section \<open>Properties of the selection\<close>

lemma top_with_ties_long:
  assumes "5 \<le> length rs"
  shows "top_with_ties rs =
           take 4 rs @ filter (\<lambda>e. row_count e = row_count (rs ! 4) \<and>
                                    row_id e \<notin> row_id ` set (take 4 rs)) rs"
  using assms by (simp add: top_with_ties_def Let_def min_def)

lemma top_with_ties_short: "length rs < 5 \<Longrightarrow> top_with_ties rs = rs"
  by (simp add: top_with_ties_def Let_def)

lemma recent_with_ties_long:
  assumes "5 \<le> length as" and "publishedDate (as ! 4) = Some t"
  shows "recent_with_ties as =
           take 4 as @ filter (\<lambda>e. publishedDate e = Some t \<and>
                                    article_key e \<notin> article_key ` set (take 4 as)) as"
  using assms by (simp add: recent_with_ties_def Let_def min_def)

lemma recent_with_ties_short: "length as < 5 \<Longrightarrow> recent_with_ties as = as"
  by (simp add: recent_with_ties_def Let_def)

lemma recent_with_ties_null:
  assumes "5 \<le> length as" and "publishedDate (as ! 4) = None"
  shows "recent_with_ties as = take 5 as"
  using assms by (simp add: recent_with_ties_def Let_def min_def)

text \<open>
  Claim C1, as amended. For a result list with more than five entries, operations 1 and 3
  return the entries at positions 1--4 in their order, followed by every entry of the
  whole list whose count equals the fifth entry's count and whose key is not the key of
  one of the first four; operation 4 does the same, on the published instant and the key
  (title, instant), when the fifth article has a published instant. So the entry at
  position 6 is selected when it ties the fifth and is not, by its key, one of the first
  four, and no entry behind position 4 of the output has the key of one of the first four.
\<close>

theorem top_n_with_ties_selection:
  assumes "5 < length rs" and "5 < length as" and "publishedDate (as ! 4) \<noteq> None"
  shows "top_with_ties rs = top_n_with_ties_spec row_id row_count rs \<and>
         (row_count (rs ! 5) = row_count (rs ! 4) \<and> row_id (rs ! 5) \<notin> row_id ` set (take 4 rs)
            \<longrightarrow> rs ! 5 \<in> set (drop 4 (top_with_ties rs))) \<and>
         take 4 (top_with_ties rs) = take 4 rs \<and>
         (\<forall>e \<in> set (drop 4 (top_with_ties rs)). row_id e \<notin> row_id ` set (take 4 rs)) \<and>
         recent_with_ties as = top_n_with_ties_spec article_key publishedDate as \<and>
         (publishedDate (as ! 5) = publishedDate (as ! 4) \<and>
          article_key (as ! 5) \<notin> article_key ` set (take 4 as)
            \<longrightarrow> as ! 5 \<in> set (drop 4 (recent_with_ties as))) \<and>
         take 4 (recent_with_ties as) = take 4 as \<and>
         (\<forall>e \<in> set (drop 4 (recent_with_ties as)).
             article_key e \<notin> article_key ` set (take 4 as))"
proof -
  from assms(1) have r: "top_with_ties rs =
      take 4 rs @ filter (\<lambda>e. row_count e = row_count (rs ! 4) \<and>
                               row_id e \<notin> row_id ` set (take 4 rs)) rs"
    by (simp add: top_with_ties_long)
  from assms(3) obtain t where t: "publishedDate (as ! 4) = Some t" by auto
  with assms(2) have a: "recent_with_ties as =
      take 4 as @ filter (\<lambda>e. publishedDate e = Some t \<and>
                               article_key e \<notin> article_key ` set (take 4 as)) as"
    by (simp add: recent_with_ties_long)
  have r5: "rs ! 5 \<in> set rs" and a5: "as ! 5 \<in> set as"
    using assms(1,2) by simp_all
  have "top_with_ties rs = top_n_with_ties_spec row_id row_count rs"
    using assms(1) r by (simp add: top_n_with_ties_spec_def)
  moreover have "row_count (rs ! 5) = row_count (rs ! 4) \<and>
        row_id (rs ! 5) \<notin> row_id ` set (take 4 rs)
          \<longrightarrow> rs ! 5 \<in> set (drop 4 (top_with_ties rs))"
    using assms(1) r5 by (simp add: r)
  moreover have "take 4 (top_with_ties rs) = take 4 rs"
    using assms(1) by (simp add: r)
  moreover have "\<forall>e \<in> set (drop 4 (top_with_ties rs)). row_id e \<notin> row_id ` set (take 4 rs)"
    using assms(1) by (simp add: r)
  moreover have "recent_with_ties as = top_n_with_ties_spec article_key publishedDate as"
    using assms(2) a t by (simp add: top_n_with_ties_spec_def)
  moreover have "publishedDate (as ! 5) = publishedDate (as ! 4) \<and>
        article_key (as ! 5) \<notin> article_key ` set (take 4 as)
          \<longrightarrow> as ! 5 \<in> set (drop 4 (recent_with_ties as))"
    using assms(2) a5 t by (simp add: a)
  moreover have "take 4 (recent_with_ties as) = take 4 as"
    using assms(2) by (simp add: a)
  moreover have "\<forall>e \<in> set (drop 4 (recent_with_ties as)).
        article_key e \<notin> article_key ` set (take 4 as)"
    using assms(2) by (simp add: a)
  ultimately show ?thesis by blast
qed

theorem top_n_with_ties_selection_witness:
  "top_with_ties tied_rows = take 4 tied_rows @ [tied_rows ! 4, tied_rows ! 5] \<and>
   recent_with_ties dated_rows = take 4 dated_rows @ [dated_rows ! 4, dated_rows ! 5]"
proof -
  have h: "5 < length tied_rows" "5 < length dated_rows" "publishedDate (dated_rows ! 4) \<noteq> None"
    by (simp_all add: tied_rows_def dated_rows_def)
  have s1: "top_n_with_ties_spec row_id row_count tied_rows =
              take 4 tied_rows @ [tied_rows ! 4, tied_rows ! 5]"
    by code_simp
  have s2: "top_n_with_ties_spec article_key publishedDate dated_rows =
              take 4 dated_rows @ [dated_rows ! 4, dated_rows ! 5]"
    by code_simp
  from top_n_with_ties_selection [OF h] s1 s2 show ?thesis by simp
qed

text \<open>
  Claim C1 as stated fails for operation 4: with six articles that have no published
  instant, the sixth ties the fifth and is not among the first four, and is not returned.
\<close>

theorem top_n_with_ties_undated_counterexample:
  "5 < length undated_rows \<and>
   recent_with_ties undated_rows \<noteq> top_n_with_ties_spec article_key publishedDate undated_rows"
  by code_simp

lemma five_split:
  assumes "length xs = 5"
  shows "take 4 xs @ [xs ! 4] = xs"
proof -
  from assms have "4 < length xs" by simp
  then have "take (Suc 4) xs = take 4 xs @ [xs ! 4]"
    by (rule take_Suc_conv_app_nth)
  moreover from assms have "take (Suc 4) xs = xs" by simp
  ultimately show ?thesis by simp
qed

lemma filter_fifth_only:
  assumes "length xs = 5" and "distinct (map k xs)"
  shows "filter (\<lambda>e. P e \<and> k e \<notin> k ` set (take 4 xs)) xs = (if P (xs ! 4) then [xs ! 4] else [])"
proof -
  define ys where "ys = take 4 xs"
  define y where "y = xs ! 4"
  have xs: "xs = ys @ [y]"
    using five_split [OF assms(1)] by (simp add: ys_def y_def)
  have len: "length ys = 4" using assms(1) by (simp add: ys_def)
  have t: "take 4 xs = ys" by (simp add: ys_def)
  have n: "xs ! 4 = y" by (simp add: y_def)
  from assms(2) have fresh: "k y \<notin> k ` set ys"
    by (subst (asm) xs) simp
  have "filter (\<lambda>e. P e \<and> k e \<notin> k ` set ys) ys = []"
    by (simp add: filter_empty_conv)
  with fresh show ?thesis
    unfolding t n by (subst xs) simp
qed

text \<open>
  Claim C2. A result list of at most five entries with distinct identity keys is returned
  whole and in its order, by the selection of operations 1 and 3 and by that of
  operation 4; with exactly five entries the output is those five entries.
\<close>

theorem at_most_five_returns_all:
  assumes "length rs \<le> 5" and "distinct (map row_id rs)"
      and "length as \<le> 5" and "distinct (map article_key as)"
  shows "top_with_ties rs = rs \<and> top_n_with_ties_spec row_id row_count rs = rs \<and>
         recent_with_ties as = as \<and> top_n_with_ties_spec article_key publishedDate as = as"
proof -
  have "top_with_ties rs = rs"
  proof (cases "length rs < 5")
    case True
    then show ?thesis by (rule top_with_ties_short)
  next
    case False
    with assms(1) have "length rs = 5" by simp
    then show ?thesis
      using filter_fifth_only [of rs row_id "\<lambda>e. row_count e = row_count (rs ! 4)"] assms(2)
      by (simp add: top_with_ties_long five_split)
  qed
  moreover have "recent_with_ties as = as"
  proof (cases "length as < 5")
    case True
    then show ?thesis by (rule recent_with_ties_short)
  next
    case False
    with assms(3) have "length as = 5" by simp
    note five = this
    show ?thesis
    proof (cases "publishedDate (as ! 4)")
      case None
      with five show ?thesis by (simp add: recent_with_ties_null)
    next
      case (Some t)
      with five show ?thesis
        using filter_fifth_only [of as article_key "\<lambda>e. publishedDate e = Some t"] assms(4)
        by (simp add: recent_with_ties_long five_split)
    qed
  qed
  ultimately show ?thesis
    using assms(1,3) by (simp add: top_n_with_ties_spec_def)
qed

theorem at_most_five_returns_all_witness:
  "top_with_ties (take 5 tied_rows) = take 5 tied_rows \<and>
   recent_with_ties (take 5 dated_rows) = take 5 dated_rows"
proof -
  have h: "length (take 5 tied_rows) \<le> 5" "distinct (map row_id (take 5 tied_rows))"
          "length (take 5 dated_rows) \<le> 5" "distinct (map article_key (take 5 dated_rows))"
    by code_simp+
  from at_most_five_returns_all [OF h] show ?thesis by simp
qed

text \<open>
  Claim C10. In operation 4, when at least five articles match the source and the fifth
  of the sorted list has no published instant, exactly the first five are returned.
\<close>

theorem recent_undated_fifth_no_expansion:
  assumes "strip py input \<noteq> []"
      and "recent_pipeline m (lower py (strip py input)) collection = Inr all_articles"
      and "5 \<le> length all_articles"
      and "publishedDate (all_articles ! 4) = None"
  shows "handle_recent_by_source py m collection input = Inr (Recent (take 5 all_articles))"
proof -
  from assms(3) have "all_articles \<noteq> []" by auto
  with assms show ?thesis
    by (simp add: handle_recent_by_source_def recent_with_ties_null)
qed

theorem recent_undated_fifth_no_expansion_witness:
  "handle_recent_by_source example_python example_mongo undated_collection ''BBC'' = Inr (Recent (take 5 undated_rows))
   \<and> length undated_rows = 6
   \<and> publishedDate (undated_rows ! 5) = publishedDate (undated_rows ! 4)"
proof -
  have h: "strip example_python ''BBC'' \<noteq> []"
    "recent_pipeline example_mongo (lower example_python (strip example_python ''BBC'')) undated_collection = Inr undated_rows"
    "5 \<le> length undated_rows" "publishedDate (undated_rows ! 4) = None"
    by code_simp+
  have "length undated_rows = 6 \<and> publishedDate (undated_rows ! 5) = publishedDate (undated_rows ! 4)"
    by code_simp
  with recent_undated_fifth_no_expansion [OF h] show ?thesis by simp
qed

lemma process_line_skip:
  assumes "accepted py loads raw = None"
  shows "process_line py loads insert_ok st (n, raw) =
           st\<lparr>warnings := warnings (process_line py loads insert_ok st (n, raw))\<rparr>"
proof (cases "strip py raw = []")
  case True
  then show ?thesis by (simp add: process_line_def)
next
  case False
  show ?thesis
  proof (cases "loads (strip py raw)")
    case None
    with False show ?thesis by (simp add: process_line_def)
  next
    case (Some d)
    with False assms have "all_fields_in required_fields d \<noteq> Some True"
      by (simp add: accepted_def split: if_splits)
    then consider "all_fields_in required_fields d = None"
      | "all_fields_in required_fields d = Some False"
      by (cases "all_fields_in required_fields d") auto
    then show ?thesis
      using False Some by cases (simp_all add: process_line_def)
  qed
qed

lemma process_line_accept:
  assumes "accepted py loads raw = Some d"
  shows "process_line py loads insert_ok st (n, raw) =
           (let b = batch st @ [d] in
            if length b \<ge> BATCH_SIZE then
              (if insert_ok (length (calls st)) b then
                 st\<lparr>batch := [],
                    total_documents := total_documents st + length b,
                    batch_count := batch_count st + 1,
                    calls := calls st @ [b],
                    reported := reported st @ [(batch_count st + 1, length b)]\<rparr>
               else
                 st\<lparr>batch := b,
                    calls := calls st @ [b],
                    warnings := warnings st @ [ProcessingError n]\<rparr>)
            else st\<lparr>batch := b\<rparr>)"
  using assms
  by (auto simp: accepted_def process_line_def Let_def split: if_splits option.splits)

lemma flushed_in_full_step:
  assumes ok: "\<forall>k b. insert_ok k b" and inv: "flushed_in_full st docs"
  shows "flushed_in_full (process_line py loads insert_ok st (n, raw))
           (docs @ (case accepted py loads raw of None \<Rightarrow> [] | Some d \<Rightarrow> [d]))"
proof (cases "accepted py loads raw")
  case None
  from inv None show ?thesis
    by (subst process_line_skip [OF None]) (simp add: flushed_in_full_def)
next
  case (Some d)
  show ?thesis
  proof (cases "length (batch st @ [d]) \<ge> BATCH_SIZE")
    case True
    with inv have len: "length (batch st @ [d]) = BATCH_SIZE"
      by (simp add: flushed_in_full_def)
    from True ok have "process_line py loads insert_ok st (n, raw) =
        st\<lparr>batch := [],
           total_documents := total_documents st + length (batch st @ [d]),
           batch_count := batch_count st + 1,
           calls := calls st @ [batch st @ [d]],
           reported := reported st @ [(batch_count st + 1, length (batch st @ [d]))]\<rparr>"
      by (simp add: process_line_accept [OF Some] Let_def)
    with inv Some len show ?thesis
      by (simp add: flushed_in_full_def BATCH_SIZE_def)
  next
    case False
    then have "process_line py loads insert_ok st (n, raw) = st\<lparr>batch := batch st @ [d]\<rparr>"
      by (simp add: process_line_accept [OF Some] Let_def)
    with inv Some False show ?thesis
      by (simp add: flushed_in_full_def)
  qed
qed

lemma valid_records_Cons:
  "valid_records py loads (l # ls) =
     (case accepted py loads l of None \<Rightarrow> [] | Some d \<Rightarrow> [d]) @ valid_records py loads ls"
  by (simp add: valid_records_def split: option.splits)

lemma flushed_in_full_foldl:
  assumes ok: "\<forall>k b. insert_ok k b"
  shows "flushed_in_full st docs \<Longrightarrow>
         flushed_in_full (foldl (process_line py loads insert_ok) st (enumerate n lines))
           (docs @ valid_records py loads lines)"
proof (induction lines arbitrary: st docs n)
  case Nil
  then show ?case by (simp add: valid_records_def)
next
  case (Cons l ls)
  from flushed_in_full_step [OF ok Cons.prems]
  have "flushed_in_full (process_line py loads insert_ok st (n, l))
          (docs @ (case accepted py loads l of None \<Rightarrow> [] | Some d \<Rightarrow> [d]))" .
  from Cons.IH [OF this] show ?case
    by (simp add: valid_records_Cons)
qed

lemma flushed_in_full_read_lines:
  assumes ok: "\<forall>k b. insert_ok k b"
  shows "flushed_in_full (read_lines py loads insert_ok lines) (valid_records py loads lines)"
proof -
  have "flushed_in_full initial_loader []"
    by (simp add: flushed_in_full_def initial_loader_def BATCH_SIZE_def)
  from flushed_in_full_foldl [OF ok this] show ?thesis
    by (simp add: read_lines_def)
qed

lemma length_concat_full:
  "(\<forall>c \<in> set cs. length c = n) \<Longrightarrow> length (concat cs) = n * length cs"
  by (induction cs) simp_all

lemma main_flushes_all:
  assumes ok: "\<forall>k b. insert_ok k b"
  shows "\<exists>st. main py loads insert_ok lines EndOfFile = Inr st \<and>
           concat (calls st) = valid_records py loads lines \<and>
           (\<forall>c \<in> set (butlast (calls st)). length c = BATCH_SIZE) \<and>
           (calls st \<noteq> [] \<longrightarrow> 0 < length (last (calls st)) \<and> length (last (calls st)) \<le> BATCH_SIZE) \<and>
           total_documents st = length (valid_records py loads lines) \<and>
           batch_count st = length (calls st) \<and>
           map snd (reported st) = map length (calls st)"
proof -
  define st0 where "st0 = read_lines py loads insert_ok lines"
  have inv: "flushed_in_full st0 (valid_records py loads lines)"
    unfolding st0_def by (rule flushed_in_full_read_lines [OF ok])
  then have full: "\<forall>c \<in> set (calls st0). length c = BATCH_SIZE"
    by (simp add: flushed_in_full_def)
  from inv have docs: "concat (calls st0) @ batch st0 = valid_records py loads lines"
    by (simp add: flushed_in_full_def)
  have n: "length (valid_records py loads lines) = BATCH_SIZE * length (calls st0) + length (batch st0)"
    using length_concat_full [OF full] by (simp add: docs [symmetric])
  show ?thesis
  proof (cases "batch st0 = []")
    case True
    then have m: "main py loads insert_ok lines EndOfFile = Inr st0"
      by (simp add: main_def st0_def Let_def)
    have "calls st0 \<noteq> [] \<longrightarrow> last (calls st0) \<in> set (calls st0)" by simp
    with full have "calls st0 \<noteq> [] \<longrightarrow>
        0 < length (last (calls st0)) \<and> length (last (calls st0)) \<le> BATCH_SIZE"
      by (auto simp: BATCH_SIZE_def)
    moreover have "\<forall>c \<in> set (butlast (calls st0)). length c = BATCH_SIZE"
      using full by (auto dest: in_set_butlastD)
    ultimately show ?thesis
      using inv True n by (auto simp: m flushed_in_full_def)
  next
    case False
    define st1 where "st1 = st0\<lparr>total_documents := total_documents st0 + length (batch st0),
                   batch_count := batch_count st0 + 1,
                   calls := calls st0 @ [batch st0],
                   reported := reported st0 @ [(batch_count st0 + 1, length (batch st0))]\<rparr>"
    from False ok have m: "main py loads insert_ok lines EndOfFile = Inr st1"
      by (simp add: main_def st0_def [symmetric] st1_def Let_def)
    have "concat (calls st1) = valid_records py loads lines"
      using docs by (simp add: st1_def)
    moreover have "\<forall>c \<in> set (butlast (calls st1)). length c = BATCH_SIZE"
      using full by (simp add: st1_def)
    moreover have "0 < length (last (calls st1)) \<and> length (last (calls st1)) \<le> BATCH_SIZE"
      using False inv by (simp add: st1_def flushed_in_full_def)
    moreover have "total_documents st1 = length (valid_records py loads lines)"
      using inv n by (simp add: st1_def flushed_in_full_def)
    moreover have "batch_count st1 = length (calls st1)"
      using inv by (simp add: st1_def flushed_in_full_def)
    moreover have "map snd (reported st1) = map length (calls st1)"
      using inv by (simp add: st1_def flushed_in_full_def)
    ultimately show ?thesis using m by blast
  qed
qed

lemma chunk_counts:
  fixes cs :: "'a list list"
  assumes full: "\<forall>c \<in> set (butlast cs). length c = 1000"
      and rest: "cs \<noteq> [] \<longrightarrow> 0 < length (last cs) \<and> length (last cs) \<le> 1000"
  shows "length cs = (length (concat cs) + 999) div 1000 \<and>
         (\<forall>i < length (concat cs) div 1000. length (cs ! i) = 1000) \<and>
         (length (concat cs) mod 1000 \<noteq> 0 \<longrightarrow>
            length (last cs) = length (concat cs) mod 1000) \<and>
         sum_list (map length cs) = length (concat cs)"
proof (cases cs rule: rev_cases)
  case Nil
  then show ?thesis by simp
next
  case (snoc bs l)
  from full snoc have b: "\<forall>c \<in> set bs. length c = 1000" by simp
  from rest snoc have l: "0 < length l" "length l \<le> 1000" by simp_all
  have n: "length (concat cs) = 1000 * length bs + length l"
    using length_concat_full [OF b] by (simp add: snoc)
  have "(1000 * length bs + length l + 999) div 1000 = Suc (length bs)"
    using l by arith
  then have c1: "length cs = (length (concat cs) + 999) div 1000"
    unfolding n by (simp add: snoc)
  have c2: "\<forall>i < length (concat cs) div 1000. length (cs ! i) = 1000"
  proof (intro allI impI)
    fix i assume i: "i < length (concat cs) div 1000"
    show "length (cs ! i) = 1000"
    proof (cases "i < length bs")
      case True
      with b show ?thesis by (simp add: snoc nth_append)
    next
      case False
      with i n l have "i = length bs" "length l = 1000" by arith+
      then show ?thesis by (simp add: snoc)
    qed
  qed
  have "(1000 * length bs + length l) mod 1000 \<noteq> 0 \<longrightarrow>
          length l = (1000 * length bs + length l) mod 1000"
  proof
    assume "(1000 * length bs + length l) mod 1000 \<noteq> 0"
    then have "length l mod 1000 \<noteq> 0" by simp
    with l(2) have "length l < 1000" by (cases "length l = 1000") simp_all
    then show "length l = (1000 * length bs + length l) mod 1000" by simp
  qed
  then have c3: "length (concat cs) mod 1000 \<noteq> 0 \<longrightarrow>
                   length (last cs) = length (concat cs) mod 1000"
    unfolding n by (simp add: snoc)
  have c4: "sum_list (map length cs) = length (concat cs)"
    by (simp add: length_concat)
  from c1 c2 c3 c4 show ?thesis by blast
qed

lemma remainder_bounds:
  fixes l r :: nat
  assumes "r \<noteq> 0" and "l = r" and "r < 1000"
  shows "l = r \<and> 1 \<le> l \<and> l \<le> 999"
  using assms by arith

text \<open>
  Claim C3. With a store that accepts every bulk insert and \<open>N\<close> valid records in an
  input that is read to its end, ingestion ends normally having issued \<open>ceil(N/1000)\<close> bulk inserts (none when
  \<open>N = 0\<close>); each of the first \<open>N div 1000\<close> has exactly 1000 records, the last has
  \<open>N mod 1000\<close> records (between 1 and 999) when that is not zero, and the reported total
  and the sum of the batch sizes are \<open>N\<close>.
\<close>

theorem batch_accounting:
  assumes ok: "\<forall>k b. insert_ok k b"
  shows "\<exists>st. main py loads insert_ok lines EndOfFile = Inr st \<and>
           length (calls st) = (accepted_count py loads lines + 999) div 1000 \<and>
           (\<forall>i < accepted_count py loads lines div 1000. length (calls st ! i) = 1000) \<and>
           (accepted_count py loads lines mod 1000 \<noteq> 0 \<longrightarrow>
              length (last (calls st)) = accepted_count py loads lines mod 1000 \<and>
              1 \<le> length (last (calls st)) \<and> length (last (calls st)) \<le> 999) \<and>
           total_documents st = accepted_count py loads lines \<and>
           sum_list (map length (calls st)) = accepted_count py loads lines \<and>
           batch_count st = length (calls st) \<and>
           map snd (reported st) = map length (calls st)"
proof -
  from main_flushes_all [OF ok, where py = py and loads = loads and lines = lines] obtain st where
    m: "main py loads insert_ok lines EndOfFile = Inr st" and
    c: "concat (calls st) = valid_records py loads lines" and
    f: "\<forall>c \<in> set (butlast (calls st)). length c = 1000" and
    r: "calls st \<noteq> [] \<longrightarrow> 0 < length (last (calls st)) \<and> length (last (calls st)) \<le> 1000" and
    t: "total_documents st = length (valid_records py loads lines)" and
    b: "batch_count st = length (calls st)" and
    p: "map snd (reported st) = map length (calls st)"
    unfolding BATCH_SIZE_def by blast
  have n: "length (concat (calls st)) = accepted_count py loads lines"
    by (simp add: c accepted_count_def)
  from chunk_counts [OF f r] have k:
    "length (calls st) = (accepted_count py loads lines + 999) div 1000"
    "\<forall>i < accepted_count py loads lines div 1000. length (calls st ! i) = 1000"
    "accepted_count py loads lines mod 1000 \<noteq> 0 \<longrightarrow>
       length (last (calls st)) = accepted_count py loads lines mod 1000"
    "sum_list (map length (calls st)) = accepted_count py loads lines"
    unfolding n by blast+
  have "accepted_count py loads lines mod 1000 < 1000" by simp
  with k(3) have k3: "accepted_count py loads lines mod 1000 \<noteq> 0 \<longrightarrow>
          length (last (calls st)) = accepted_count py loads lines mod 1000 \<and>
          1 \<le> length (last (calls st)) \<and> length (last (calls st)) \<le> 999"
    by (intro impI remainder_bounds) blast+
  from t have t': "total_documents st = accepted_count py loads lines"
    by (simp add: accepted_count_def)
  from m k(1) k(2) k3 t' k(4) b p show ?thesis by blast
qed

lemma accepted_full: "accepted example_python example_loads ''full'' = Some valid_document"
  by code_simp

lemma valid_records_replicate:
  "accepted py loads l = Some d \<Longrightarrow> valid_records py loads (replicate n l) = replicate n d"
  by (induction n) (simp_all add: valid_records_def)

text \<open>The specification's example: 2500 valid lines give batches of 1000, 1000 and 500.\<close>

theorem batch_accounting_witness:
  "\<exists>st. main example_python example_loads store_up (replicate 2500 ''full'') EndOfFile = Inr st \<and>
        map length (calls st) = [1000, 1000, 500] \<and> total_documents st = 2500 \<and>
        map snd (reported st) = [1000, 1000, 500]"
proof -
  have ok: "\<forall>k b. store_up k b" by (simp add: store_up_def)
  have n: "accepted_count example_python example_loads (replicate 2500 ''full'') = 2500"
    by (simp only: accepted_count_def valid_records_replicate [OF accepted_full] length_replicate)
  from batch_accounting [OF ok, where py = example_python and loads = example_loads
      and lines = "replicate 2500 ''full''"]
  obtain st where
    m: "main example_python example_loads store_up (replicate 2500 ''full'') EndOfFile = Inr st" and
    l0: "length (calls st) = (2500 + 999) div 1000" and
    f0: "\<forall>i < 2500 div 1000. length (calls st ! i) = 1000" and
    r0: "(2500::nat) mod 1000 \<noteq> 0 \<longrightarrow> length (last (calls st)) = 2500 mod 1000 \<and>
           1 \<le> length (last (calls st)) \<and> length (last (calls st)) \<le> 999" and
    t: "total_documents st = 2500" and
    p: "map snd (reported st) = map length (calls st)"
    unfolding n by blast
  from l0 have l: "length (calls st) = 3" by simp
  from f0 have f: "\<forall>i < 2. length (calls st ! i) = 1000" by simp
  from r0 have r: "length (last (calls st)) = 500" by simp
  from l obtain a b c where cs: "calls st = [a, b, c]"
    by (auto simp: length_Suc_conv numeral_3_eq_3)
  from f have "length (calls st ! 0) = 1000" "length (calls st ! 1) = 1000" by simp_all
  with r have q: "map length (calls st) = [1000, 1000, 500]" by (simp add: cs)
  with p have p': "map snd (reported st) = [1000, 1000, 500]" by (simp only:)
  show ?thesis by (rule exI [of _ st]) (intro conjI m q t p')
qed

section \<open>Validation of a parsed line\<close>

text \<open>
  Claim C8 says that only records holding all six required fields enter a batch and that
  a bad line never ends the run. The test of line 77 is Python's \<^verbatim>\<open>in\<close>, which on a
  string is the substring test: the JSON string spelling the six names passes, is put
  into the batch behind a valid record, and the flush of that batch raises, so the run
  ends with status 1 and the valid record is not inserted.
\<close>

theorem names_string_enters_batch:
  "all_fields_in required_fields (JStr names_text) = Some True \<and>
   batch (read_lines example_python example_loads dict_store [''full'', names_line]) =
     [valid_document, JStr names_text] \<and>
   warnings (read_lines example_python example_loads dict_store [''full'', names_line]) = [] \<and>
   main example_python example_loads dict_store [''full'', names_line] EndOfFile =
     Inl ProcessingFailed \<and>
   map_sum id calls (main example_python example_loads dict_store [''full''] EndOfFile) =
     Inr [[valid_document]]"
  by code_simp

section \<open>Operation 2\<close>

lemma stage_all_right:
  "(\<forall>x \<in> set xs. f x = Inr (g x)) \<Longrightarrow> stage f xs = Inr (map g xs)"
  by (induction xs) simp_all

lemma count_list_map_conv:
  "count_list (map f xs) k = length (filter (\<lambda>x. f x = k) xs)"
  by (induction xs) simp_all

lemma count_list_absent: "k \<notin> set ks \<Longrightarrow> count_list ks k = 0"
  by (induction ks) auto

lemma assign_count_row:
  "assign_count (a, b) \<lparr>row_id = k, row_count = c\<rparr> =
     (if k = ''news'' then (c, b) else if k = ''blog'' then (a, c) else (a, b))"
  by (simp add: assign_count_def)

lemma assign_counts_rows:
  "foldl assign_count (a, b) (map (\<lambda>k. \<lparr>row_id = k, row_count = f k\<rparr>) xs) =
     (if ''news'' \<in> set xs then f ''news'' else a, if ''blog'' \<in> set xs then f ''blog'' else b)"
proof (induction xs arbitrary: a b)
  case Nil
  show ?case by simp
next
  case (Cons x xs)
  have nb: "''news'' \<noteq> ''blog''" by simp
  show ?case
  proof (cases "x = ''news''")
    case True
    then show ?thesis using nb by (simp add: Cons.IH assign_count_row del: list.inject)
  next
    case False
    note nn = this
    show ?thesis
    proof (cases "x = ''blog''")
      case True
      then show ?thesis using nb by (simp add: Cons.IH assign_count_row del: list.inject)
    next
      case False
      with nn show ?thesis by (simp add: Cons.IH assign_count_row del: list.inject) 
    qed
  qed
qed

lemma assign_counts_group:
  "foldl assign_count (0, 0) (group_count ks) = (count_list ks ''news'', count_list ks ''blog'')"
  by (simp add: group_count_def assign_counts_rows count_list_absent del: list.inject)

lemma resolvable_date_only:
  assumes "resolvable m collection" and "d \<in> set collection"
  shows "\<exists>s. date_only m (published d) = Inr s"
proof -
  from assms have "\<not> isl (published_date m (published d))"
    by (simp add: resolvable_def list_all_iff)
  then obtain t where "published_date m (published d) = Inr t"
    by (cases "published_date m (published d)") auto
  then show ?thesis by (simp add: date_only_def)
qed

lemma article_count_pipeline_groups:
  assumes "resolvable m collection"
  shows "article_count_pipeline m date_str collection =
           Inr (group_count (day_keys m date_str collection))"
proof -
  define g where "g = (\<lambda>d :: article. \<lparr>mediaTypeLower = toLower (mediaType d),
                  dateOnly = (case date_only m (published d) of Inr s \<Rightarrow> s | Inl e \<Rightarrow> None)\<rparr>)"
  define f where "f = (\<lambda>d :: article. case date_only m (published d) of
                        Inl e \<Rightarrow> Inl e
                      | Inr s \<Rightarrow> Inr \<lparr>mediaTypeLower = toLower (mediaType d), dateOnly = s\<rparr>)"
  have fg: "\<forall>d \<in> set collection. f d = Inr (g d)"
  proof
    fix d assume "d \<in> set collection"
    from resolvable_date_only [OF assms this] obtain s
      where "date_only m (published d) = Inr s" ..
    then show "f d = Inr (g d)" by (simp add: f_def g_def)
  qed
  then have st: "stage f collection = Inr (map g collection)"
    by (rule stage_all_right)
  have flt: "map mediaTypeLower
               (filter (\<lambda>r. dateOnly r = Some date_str \<and>
                      mediaTypeLower r \<in> set [''news'', ''blog'']) (map g collection)) =
             day_keys m date_str collection"
    unfolding day_keys_def using assms
  proof (induction collection)
    case Nil
    show ?case by simp
  next
    case (Cons d ds)
    from Cons.prems have r: "resolvable m ds" by (simp add: resolvable_def)
    from resolvable_date_only [OF Cons.prems, of d] obtain s
      where s: "date_only m (published d) = Inr s" by auto
    show ?case
      using Cons.IH [OF r] by (simp add: g_def s del: list.inject)
  qed
  show ?thesis
    unfolding article_count_pipeline_def f_def [symmetric] st using flt by simp
qed

lemma count_day_keys:
  assumes "kind = ''news'' \<or> kind = ''blog''"
  shows "count_list (day_keys m date_str collection) kind = articles_on m date_str kind collection"
proof -
  have eq: "(\<lambda>d. (date_only m (published d) = Inr (Some date_str) \<and>
                (toLower (mediaType d) = ''news'' \<or> toLower (mediaType d) = ''blog'')) \<and>
                toLower (mediaType d) = kind) =
            (\<lambda>d. date_only m (published d) = Inr (Some date_str) \<and> toLower (mediaType d) = kind)"
    using assms by (intro ext) blast
  show ?thesis
    unfolding day_keys_def articles_on_def count_list_map_conv filter_filter
    by (simp only: eq)
qed

lemma day_keys_empty:
  "day_keys m date_str collection = [] \<longleftrightarrow>
     articles_on m date_str ''news'' collection = 0 \<and>
     articles_on m date_str ''blog'' collection = 0"
proof -
  have "day_keys m date_str collection = [] \<longleftrightarrow>
          (\<forall>d \<in> set collection. \<not> (date_only m (published d) = Inr (Some date_str) \<and>
               (toLower (mediaType d) = ''news'' \<or> toLower (mediaType d) = ''blog'')))"
    unfolding day_keys_def by (simp only: map_is_Nil_conv filter_empty_conv)
  also have "\<dots> \<longleftrightarrow>
          (\<forall>d \<in> set collection. \<not> (date_only m (published d) = Inr (Some date_str) \<and>
               toLower (mediaType d) = ''news'')) \<and>
          (\<forall>d \<in> set collection. \<not> (date_only m (published d) = Inr (Some date_str) \<and>
               toLower (mediaType d) = ''blog''))"
    by blast
  also have "\<dots> \<longleftrightarrow> articles_on m date_str ''news'' collection = 0 \<and>
     articles_on m date_str ''blog'' collection = 0"
    unfolding articles_on_def by (simp only: length_0_conv filter_empty_conv)
  finally show ?thesis .
qed

lemma group_count_empty: "group_count ks = [] \<longleftrightarrow> ks = []"
  by (simp add: group_count_def)

lemma assign_count_commute:
  assumes "row_id x \<noteq> row_id y"
  shows "assign_count (assign_count s x) y = assign_count (assign_count s y) x"
  using assms by (cases s) (auto simp: assign_count_def)

lemma assign_counts_any_order:
  assumes "distinct (map row_id rs)" and "mset rs' = mset rs"
  shows "foldl assign_count s rs' = foldl assign_count s rs"
proof -
  have "\<And>x y. x \<in> set rs \<Longrightarrow> y \<in> set rs \<Longrightarrow>
          (\<lambda>s. assign_count s x) \<circ> (\<lambda>s. assign_count s y) =
          (\<lambda>s. assign_count s y) \<circ> (\<lambda>s. assign_count s x)"
  proof -
    fix x y assume "x \<in> set rs" "y \<in> set rs"
    show "(\<lambda>s. assign_count s x) \<circ> (\<lambda>s. assign_count s y) =
          (\<lambda>s. assign_count s y) \<circ> (\<lambda>s. assign_count s x)"
    proof (cases "row_id x = row_id y")
      case True
      with assms(1) \<open>x \<in> set rs\<close> \<open>y \<in> set rs\<close> have "x = y"
        by (meson distinct_map inj_onD)
      then show ?thesis by simp
    next
      case False
      then show ?thesis
        by (intro ext) (simp add: assign_count_commute [of y x])
    qed
  qed
  from fold_multiset_equiv [of rs "\<lambda>x s. assign_count s x" rs', OF this assms(2) [symmetric]]
  show ?thesis by (simp add: foldl_conv_fold)
qed

lemma group_count_distinct: "distinct (map row_id (group_count ks))"
  by (simp add: group_count_def comp_def)

text \<open>
  What operation 2 reports for an input that passes the date check, on a collection whose
  \<^verbatim>\<open>published\<close> values all resolve. The articles counted are those whose canonical day
  is the input as it was typed: when there is none with a media type that is, in lower
  case, news or blog, the report is "no articles"; otherwise it gives both counts (a
  category without a group counts zero), and with them the leader and the difference, or
  the tie when the counts are equal. The counts do not depend on the order in which the
  store returns the groups.
\<close>

lemma article_count_report:
  assumes "strptime_ok py (strip py input)" and "resolvable m collection"
  shows "handle_article_count py m collection input =
           Inr (let news_count = articles_on m (strip py input) ''news'' collection;
                    blog_count = articles_on m (strip py input) ''blog'' collection
                in if news_count = 0 \<and> blog_count = 0 then NoArticles
                   else Counts news_count blog_count
                          (if news_count > blog_count then NewsMore (news_count - blog_count)
                           else if blog_count > news_count then BlogsMore (blog_count - news_count)
                           else Same)) \<and>
         (\<forall>results.
            article_count_pipeline m (strip py input) collection = Inr results \<longrightarrow>
            (\<forall>results'. mset results' = mset results \<longrightarrow>
               foldl assign_count (0, 0) results' =
                 (articles_on m (strip py input) ''news'' collection,
                  articles_on m (strip py input) ''blog'' collection)))"
proof -
  define day where "day = strip py input"
  define ks where "ks = day_keys m day collection"
  have p: "article_count_pipeline m day collection = Inr (group_count ks)"
    unfolding ks_def by (rule article_count_pipeline_groups [OF assms(2)])
  have n: "count_list ks ''news'' = articles_on m day ''news'' collection"
    and b: "count_list ks ''blog'' = articles_on m day ''blog'' collection"
    unfolding ks_def by (rule count_day_keys, simp)+
  have e: "group_count ks = [] \<longleftrightarrow>
             articles_on m day ''news'' collection = 0 \<and> articles_on m day ''blog'' collection = 0"
    unfolding group_count_empty ks_def by (rule day_keys_empty)
  have l: "foldl assign_count (0, 0) (group_count ks) =
             (articles_on m day ''news'' collection, articles_on m day ''blog'' collection)"
    by (simp only: assign_counts_group n b)
  have 1: "handle_article_count py m collection input =
           Inr (let news_count = articles_on m day ''news'' collection;
                    blog_count = articles_on m day ''blog'' collection
                in if news_count = 0 \<and> blog_count = 0 then NoArticles
                   else Counts news_count blog_count
                          (if news_count > blog_count then NewsMore (news_count - blog_count)
                           else if blog_count > news_count then BlogsMore (blog_count - news_count)
                           else Same))"
    using assms(1) e
    unfolding handle_article_count_def day_def [symmetric] Let_def p
    by (simp add: l del: list.inject)
  have 2: "\<forall>results.
            article_count_pipeline m day collection = Inr results \<longrightarrow>
            (\<forall>results'. mset results' = mset results \<longrightarrow>
               foldl assign_count (0, 0) results' =
                 (articles_on m day ''news'' collection, articles_on m day ''blog'' collection))"
    unfolding p
    using assign_counts_any_order [OF group_count_distinct, of _ ks "(0, 0)"] l by auto
  from 1 2 show ?thesis unfolding day_def by blast
qed

lemma article_count_report_example:
  "handle_article_count example_python example_mongo balanced_collection ''2015-09-01'' =
     Inr (Counts 3 3 Same) \<and>
   handle_article_count example_python example_mongo balanced_collection '' 2016-01-01 '' =
     Inr (Counts 1 0 (NewsMore 1)) \<and>
   handle_article_count example_python example_mongo balanced_collection ''2015-09-02'' =
     Inr NoArticles"
proof -
  have r: "resolvable example_mongo balanced_collection"
    by code_simp
  have d: "strptime_ok example_python (strip example_python ''2015-09-01'')"
    "strptime_ok example_python (strip example_python '' 2016-01-01 '')"
    "strptime_ok example_python (strip example_python ''2015-09-02'')"
    by code_simp+
  have c:
    "articles_on example_mongo (strip example_python ''2015-09-01'') ''news'' balanced_collection = 3"
    "articles_on example_mongo (strip example_python ''2015-09-01'') ''blog'' balanced_collection = 3"
    "articles_on example_mongo (strip example_python '' 2016-01-01 '') ''news'' balanced_collection = 1"
    "articles_on example_mongo (strip example_python '' 2016-01-01 '') ''blog'' balanced_collection = 0"
    "articles_on example_mongo (strip example_python ''2015-09-02'') ''news'' balanced_collection = 0"
    "articles_on example_mongo (strip example_python ''2015-09-02'') ''blog'' balanced_collection = 0"
    by code_simp+
  from article_count_report [OF d(1) r] article_count_report [OF d(2) r]
    article_count_report [OF d(3) r]
  show ?thesis by (simp add: c)
qed

section \<open>Inputs on which the operations leave the specification\<close>

text \<open>
  Claim C7 asks operation 2 for both counts whenever articles of the queried day exist.
  \<^verbatim>\<open>strptime\<close> accepts a month and a day without the leading zero, and line 145 compares
  the canonical day of each article with the input as typed: for \<^verbatim>\<open>2015-9-1\<close> the date
  check passes and the report is "no articles", although three news and three blog
  articles have that day, as the query for \<^verbatim>\<open>2015-09-01\<close> shows.
\<close>

theorem unpadded_day_finds_no_articles:
  "strptime_ok example_python (strip example_python ''2015-9-1'') \<and>
   handle_article_count example_python example_mongo balanced_collection ''2015-9-1'' =
     Inr NoArticles \<and>
   handle_article_count example_python example_mongo balanced_collection ''2015-09-01'' =
     Inr (Counts 3 3 Same)"
  by code_simp

text \<open>
  Claim C9 asks for one ranked output per store contents. Operations 1 and 3 sort on
  \<^verbatim>\<open>count\<close> and then on \<^verbatim>\<open>_id\<close>; operation 4 sorts on \<^verbatim>\<open>publishedDate\<close> alone
  (line 309), so two articles of the same instant come out in the order in which the
  store delivers them: the same two articles, delivered in the other order, are listed
  in the other order.
\<close>

theorem recent_order_follows_delivery:
  "mset (rev same_instant_pair) = mset same_instant_pair \<and>
   handle_recent_by_source example_python example_mongo same_instant_pair ''BBC'' =
     Inr (Recent [\<lparr>row_title = Val ''first'', publishedDate = Some 1441101600000,
                    date = Some ''2015-09-01''\<rparr>,
                  \<lparr>row_title = Val ''second'', publishedDate = Some 1441101600000,
                    date = Some ''2015-09-01''\<rparr>]) \<and>
   handle_recent_by_source example_python example_mongo (rev same_instant_pair) ''BBC'' =
     Inr (Recent [\<lparr>row_title = Val ''second'', publishedDate = Some 1441101600000,
                    date = Some ''2015-09-01''\<rparr>,
                  \<lparr>row_title = Val ''first'', publishedDate = Some 1441101600000,
                    date = Some ''2015-09-01''\<rparr>])"
proof -
  have "mset (rev same_instant_pair) = mset same_instant_pair" by simp
  moreover have
   "handle_recent_by_source example_python example_mongo same_instant_pair ''BBC'' =
     Inr (Recent [\<lparr>row_title = Val ''first'', publishedDate = Some 1441101600000,
                    date = Some ''2015-09-01''\<rparr>,
                  \<lparr>row_title = Val ''second'', publishedDate = Some 1441101600000,
                    date = Some ''2015-09-01''\<rparr>])"
    by code_simp
  moreover have
   "handle_recent_by_source example_python example_mongo (rev same_instant_pair) ''BBC'' =
     Inr (Recent [\<lparr>row_title = Val ''second'', publishedDate = Some 1441101600000,
                    date = Some ''2015-09-01''\<rparr>,
                  \<lparr>row_title = Val ''first'', publishedDate = Some 1441101600000,
                    date = Some ''2015-09-01''\<rparr>])"
    by code_simp
  ultimately show ?thesis by blast
qed

text \<open>
  Claim C6 has operation 3 group on the stored source as it is, and the filters of
  operations 1 and 4 match without regard to case. On ASCII names that is what happens:
  \<^verbatim>\<open>BBC\<close> and \<^verbatim>\<open>bbc\<close> are two groups of operation 3, the queries \<^verbatim>\<open>BBC\<close> and
  \<^verbatim>\<open>bbc\<close> of operation 4 return the same articles, and operation 1 counts the words of
  \<^verbatim>\<open>news\<close>, \<^verbatim>\<open>NEWS\<close> and \<^verbatim>\<open>News\<close> articles together. But operation 4 lowers the
  query with \<^verbatim>\<open>str.lower\<close> (line 266) and the stored source with \<^verbatim>\<open>$toLower\<close>
  (line 276), which leaves an accented capital as it is: the source "Ecole" with an
  accent on its capital is not found under its own name.
\<close>

theorem accented_source_not_found:
  "handle_recent_by_source example_python example_mongo ecole_collection ecole =
     Inr SourceNotFound \<and>
   map source ecole_collection = [ecole] \<and>
   handle_recent_by_source example_python example_mongo balanced_collection ''BBC'' =
     handle_recent_by_source example_python example_mongo balanced_collection ''bbc'' \<and>
   map_sum id (\<lambda>out. case out of Recent rows \<Rightarrow> length rows | _ \<Rightarrow> 0)
     (handle_recent_by_source example_python example_mongo balanced_collection ''BBC'') = Inr 6 \<and>
   handle_top_sources_2015 example_mongo balanced_collection =
     Inr (TopSources [\<lparr>row_id = ''BBC'', row_count = 4\<rparr>, \<lparr>row_id = ''CNN'', row_count = 1\<rparr>,
                      \<lparr>row_id = ''Slate'', row_count = 1\<rparr>, \<lparr>row_id = ''bbc'', row_count = 1\<rparr>]) \<and>
   handle_common_words example_python balanced_collection ''NEWS'' =
     TopWords [\<lparr>row_id = ''cats'', row_count = 15\<rparr>]"
  by code_simp

lemma find_all_gap:
  "\<forall>c \<in> set gap. \<not> cls c \<Longrightarrow> find_all cls (gap @ rest) = find_all cls rest"
  by (induction gap) simp_all

lemma find_all_none: "\<forall>c \<in> set str. \<not> cls c \<Longrightarrow> find_all cls str = []"
  using find_all_gap [of str cls "[]"] by simp

lemma takeWhile_stops: "rest = [] \<or> \<not> cls (hd rest) \<Longrightarrow> takeWhile cls rest = []"
  by (cases rest) auto

lemma dropWhile_stops: "rest = [] \<or> \<not> cls (hd rest) \<Longrightarrow> dropWhile cls rest = rest"
  by (cases rest) auto

lemma find_all_token:
  assumes "tok \<noteq> []" and "\<forall>c \<in> set tok. cls c" and "rest = [] \<or> \<not> cls (hd rest)"
  shows "find_all cls (tok @ rest) = tok # find_all cls rest"
proof -
  from assms(1) obtain c cs where tok: "tok = c # cs" by (cases tok) auto
  with assms(2) have c: "cls c" and cs: "\<And>x. x \<in> set cs \<Longrightarrow> cls x" by auto
  have t: "takeWhile cls (cs @ rest) = cs"
    using cs by (simp add: takeWhile_stops [of rest cls, OF assms(3)])
  have d: "dropWhile cls (cs @ rest) = rest"
    using cs by (simp add: dropWhile_stops [of rest cls, OF assms(3)])
  show ?thesis
    using c by (simp add: tok t d)
qed

lemma runs_unique: "runs cls str toks \<Longrightarrow> toks = find_all cls str"
proof (induction rule: runs.induct)
  case (no_token str)
  then show ?case by (simp add: find_all_none)
next
  case (token gap tok rest toks)
  then show ?case
    by (simp add: find_all_gap find_all_token)
qed

lemma runs_skip:
  assumes "runs cls str toks" and "\<not> cls c"
  shows "runs cls (c # str) toks"
  using assms
proof (cases rule: runs.cases)
  case no_token
  with assms(2) have "\<forall>x \<in> set (c # str). \<not> cls x" by simp
  then have "runs cls (c # str) []" by (rule runs.no_token)
  with no_token show ?thesis by simp
next
  case (token gap tok rest toks')
  from token(3) assms(2) have "\<forall>x \<in> set (c # gap). \<not> cls x" by simp
  from runs.token [OF this token(4) token(5) token(6) token(7)]
  show ?thesis by (simp add: token(1) token(2))
qed

lemma runs_find_all: "runs cls str (find_all cls str)"
proof (induction cls str rule: find_all.induct)
  case (1 cls)
  show ?case by (simp add: runs.no_token)
next
  case (2 cls c cs)
  show ?case
  proof (cases "cls c")
    case True
    define tok where "tok = takeWhile cls (c # cs)"
    define rest where "rest = dropWhile cls cs"
    have split: "c # cs = [] @ tok @ rest"
      using True by (simp add: tok_def rest_def)
    have "tok \<noteq> []" using True by (simp add: tok_def)
    moreover have "\<forall>x \<in> set tok. cls x"
      unfolding tok_def by (auto dest: set_takeWhileD)
    moreover have "rest = [] \<or> \<not> cls (hd rest)"
      unfolding rest_def using hd_dropWhile [of cls cs] by blast
    moreover have "runs cls rest (find_all cls rest)"
      unfolding rest_def using "2.IH"(1) [OF True] .
    ultimately have "runs cls ([] @ tok @ rest) (tok # find_all cls rest)"
      by (intro runs.token) simp_all
    then show ?thesis
      using True unfolding split [symmetric] by (simp add: tok_def rest_def)
  next
    case False
    from "2.IH"(2) [OF False] have "runs cls cs (find_all cls cs)" .
    from runs_skip [OF this False] show ?thesis using False by simp
  qed
qed

lemma runs_iff: "runs cls str toks \<longleftrightarrow> toks = find_all cls str"
  using runs_unique runs_find_all by blast

lemma mset_insort_by: "mset (insort_by le x xs) = add_mset x (mset xs)"
  by (induction xs) simp_all

lemma mset_sort_by: "mset (sort_by le xs) = mset xs"
  by (induction xs) (simp_all add: sort_by_def mset_insort_by)

lemma set_sort_by: "set (sort_by le xs) = set xs"
  using mset_sort_by [of le xs] by (metis set_mset_mset)

lemma sort_by_empty: "sort_by le xs = [] \<longleftrightarrow> xs = []"
  using mset_sort_by [of le xs] by (metis mset_zero_iff)

lemma set_insort_by: "set (insort_by le x xs) = insert x (set xs)"
  using mset_insort_by [of le x xs] by (metis set_mset_mset set_mset_add_mset_insert)

lemma sorted_insort_by:
  assumes total: "\<And>a b. le a b \<or> le b a"
      and trans: "\<And>a b c. le a b \<Longrightarrow> le b c \<Longrightarrow> le a c"
  shows "sorted_wrt le xs \<Longrightarrow> sorted_wrt le (insort_by le x xs)"
proof (induction xs)
  case Nil
  show ?case by simp
next
  case (Cons y ys)
  show ?case
  proof (cases "le x y")
    case True
    with Cons.prems trans show ?thesis by auto
  next
    case False
    with total have "le y x" by blast
    with Cons False show ?thesis by (auto simp: set_insort_by)
  qed
qed

lemma sorted_sort_by:
  assumes total: "\<And>a b. le a b \<or> le b a"
      and trans: "\<And>a b c. le a b \<Longrightarrow> le b c \<Longrightarrow> le a c"
  shows "sorted_wrt le (sort_by le xs)"
proof (induction xs)
  case Nil
  show ?case by (simp add: sort_by_def)
next
  case (Cons x xs)
  from sorted_insort_by [of le "sort_by le xs" x, OF total trans Cons.IH]
  show ?case by (simp add: sort_by_def)
qed

lemma count_desc_id_asc_total: "count_desc_id_asc a b \<or> count_desc_id_asc b a"
  by (auto simp: count_desc_id_asc_def)

lemma count_desc_id_asc_trans:
  "count_desc_id_asc a b \<Longrightarrow> count_desc_id_asc b c \<Longrightarrow> count_desc_id_asc a c"
  by (auto simp: count_desc_id_asc_def)

lemma sorted_count_desc_id_asc: "sorted_wrt count_desc_id_asc (sort_by count_desc_id_asc rs)"
  using sorted_sort_by [of count_desc_id_asc rs]
    count_desc_id_asc_total count_desc_id_asc_trans by blast

lemma ranked_strictly:
  assumes "sorted_wrt count_desc_id_asc rs" and "distinct (map row_id rs)"
  shows "sorted_wrt ranked_before rs"
  using assms
proof (induction rs)
  case Nil
  show ?case by simp
next
  case (Cons r rs)
  have "\<forall>x \<in> set rs. ranked_before r x"
  proof
    fix x assume x: "x \<in> set rs"
    with Cons.prems(1) have "count_desc_id_asc r x" by simp
    moreover from x Cons.prems(2) have "row_id r \<noteq> row_id x" by auto
    ultimately show "ranked_before r x"
      by (auto simp: count_desc_id_asc_def ranked_before_def)
  qed
  with Cons show ?case by simp
qed

lemma group_count_ids: "map row_id (group_count ks) = remdups ks"
  by (simp add: group_count_def comp_def)

lemma group_count_counts:
  "r \<in> set (group_count ks) \<Longrightarrow> row_count r = count_list ks (row_id r)"
  by (auto simp: group_count_def)

lemma distinct_map_mset:
  assumes "mset xs = mset ys" and "distinct (map f ys)"
  shows "distinct (map f xs)"
proof -
  from assms(1) have "mset (map f xs) = mset (map f ys)" by simp
  with assms(2) show ?thesis by (metis mset_eq_imp_distinct_iff)
qed

text \<open>What the grouping and sorting stages of operations 1 and 3 return for the keys \<open>ks\<close>.\<close>

lemma ranked_groups:
  "distinct (map row_id (sort_by count_desc_id_asc (group_count ks))) \<and>
   set (map row_id (sort_by count_desc_id_asc (group_count ks))) = set ks \<and>
   (\<forall>r \<in> set (sort_by count_desc_id_asc (group_count ks)). row_count r = count_list ks (row_id r)) \<and>
   sorted_wrt ranked_before (sort_by count_desc_id_asc (group_count ks))"
proof -
  let ?rs = "sort_by count_desc_id_asc (group_count ks)"
  have d: "distinct (map row_id ?rs)"
    by (rule distinct_map_mset [OF mset_sort_by]) (simp add: group_count_ids)
  have "set (map row_id ?rs) = set (map row_id (group_count ks))"
    by (simp add: set_sort_by)
  then have s: "set (map row_id ?rs) = set ks"
    by (simp add: group_count_ids)
  have c: "\<forall>r \<in> set ?rs. row_count r = count_list ks (row_id r)"
    by (simp add: set_sort_by group_count_counts)
  have "sorted_wrt ranked_before ?rs"
    by (rule ranked_strictly [OF sorted_count_desc_id_asc d])
  with d s c show ?thesis by blast
qed

section \<open>Operation 1\<close>

text \<open>
  Claim C5, as amended. For a selector that reads news or blog, operation 1 counts the
  tokens of the lowered contents of the articles whose lowered media type is the selector.
  The tokens of a text are its maximal runs, from left to right, of the characters of
  the regex class: the ASCII letters, the digits, the underscore and the hyphen. A null
  or empty content has no token. There is one row for each token that occurs, with the
  number of its occurrences in all matching articles together, and the rows are ordered
  by count descending, then by token ascending; the rank-5 selection is made on that list.
\<close>

theorem word_frequency:
  assumes "lower py (strip py input) = media_type"
      and "media_type = ''news'' \<or> media_type = ''blog''"
  shows "(\<forall>str toks. runs word_char str toks \<longleftrightarrow> toks = regexFindAll str) \<and>
         regexFindAll (toLower []) = [] \<and>
         distinct (map row_id (common_words_pipeline media_type collection)) \<and>
         set (map row_id (common_words_pipeline media_type collection)) =
           set (matching_words media_type collection) \<and>
         (\<forall>r \<in> set (common_words_pipeline media_type collection).
            row_count r = count_list (matching_words media_type collection) (row_id r)) \<and>
         sorted_wrt ranked_before (common_words_pipeline media_type collection) \<and>
         handle_common_words py collection input =
           (if matching_words media_type collection = [] then NoWords
            else TopWords (top_with_ties (common_words_pipeline media_type collection)))"
proof -
  have p: "common_words_pipeline media_type collection =
             sort_by count_desc_id_asc (group_count (matching_words media_type collection))"
    by (simp add: common_words_pipeline_def matching_words_def comp_def)
  have 1: "\<forall>str toks. runs word_char str toks \<longleftrightarrow> toks = regexFindAll str"
    by (simp add: runs_iff regexFindAll_def)
  have 2: "regexFindAll (toLower []) = []"
    by (simp add: regexFindAll_def toLower_def)
  have e: "common_words_pipeline media_type collection = [] \<longleftrightarrow>
             matching_words media_type collection = []"
    by (simp add: p sort_by_empty group_count_def)
  from assms(2) have "media_type \<in> set [''news'', ''blog'']" by auto
  then have 3: "handle_common_words py collection input =
           (if matching_words media_type collection = [] then NoWords
            else TopWords (top_with_ties (common_words_pipeline media_type collection)))"
    unfolding handle_common_words_def assms(1) Let_def e by (simp only: not_True_eq_False if_False not_not if_True)
  from 1 2 3 ranked_groups [of "matching_words media_type collection"] show ?thesis
    unfolding p by blast
qed

theorem word_frequency_witness:
  "handle_common_words example_python cats_collection '' News '' =
     TopWords [\<lparr>row_id = ''cats'', row_count = 3\<rparr>] \<and>
   runs word_char (toLower ''Cats. cats, CATS!'') [''cats'', ''cats'', ''cats'']"
proof -
  have h: "lower example_python (strip example_python '' News '') = ''news''"
    "''news'' = ''news'' \<or> ''news'' = ''blog''"
    by (code_simp, simp)
  have w: "matching_words ''news'' cats_collection = [''cats'', ''cats'', ''cats'']"
    by code_simp
  have t: "regexFindAll (toLower ''Cats. cats, CATS!'') = [''cats'', ''cats'', ''cats'']"
    by code_simp
  have s: "top_with_ties (common_words_pipeline ''news'' cats_collection) =
             [\<lparr>row_id = ''cats'', row_count = 3\<rparr>]"
    by code_simp
  from word_frequency [OF h, of cats_collection]
  have "handle_common_words example_python cats_collection '' News '' =
          (if matching_words ''news'' cats_collection = [] then NoWords
           else TopWords (top_with_ties (common_words_pipeline ''news'' cats_collection)))"
    and "runs word_char (toLower ''Cats. cats, CATS!'') [''cats'', ''cats'', ''cats''] \<longleftrightarrow>
          [''cats'', ''cats'', ''cats''] = regexFindAll (toLower ''Cats. cats, CATS!'')"
    by blast+
  then show ?thesis
    by (simp only: w s t) simp
qed

text \<open>
  Claim C5 as stated, with runs of letters: the content "cafe" with an accent on its last
  letter is a single run of letters, and operation 1 reports the token \<^verbatim>\<open>caf\<close>, since
  the accented letter is outside the class of the regex.
\<close>

theorem accented_word_counterexample:
  "runs letter_class (toLower cafe) [cafe] \<and>
   handle_common_words example_python cafe_collection ''news'' =
     TopWords [\<lparr>row_id = ''caf'', row_count = 1\<rparr>]"
proof -
  have "[cafe] = find_all letter_class (toLower cafe)" by code_simp
  then have "runs letter_class (toLower cafe) [cafe]" by (simp only: runs_iff)
  moreover have "handle_common_words example_python cafe_collection ''news'' =
     TopWords [\<lparr>row_id = ''caf'', row_count = 1\<rparr>]"
    by code_simp
  ultimately show ?thesis by blast
qed

section \<open>Representation of the published date\<close>

lemma published_date_same:
  "same_published m p q \<Longrightarrow> published_date m p = published_date m q"
  by (cases p; cases q) (auto simp: published_date_def)

lemma same_article_date:
  assumes "same_article m a b"
  shows "published_date m (published a) = published_date m (published b)"
  using assms by (simp add: same_article_def published_date_same)

lemma stage_same:
  assumes "list_all2 R xs ys" and "\<And>a b. R a b \<Longrightarrow> f a = g b"
  shows "stage f xs = stage g ys"
  using assms(1)
proof (induction rule: list_all2_induct)
  case Nil
  show ?case by simp
next
  case (Cons a xs b ys)
  from assms(2) [OF Cons.hyps(1)] Cons.IH show ?case by (simp split: sum.splits)
qed

lemma filter_same:
  assumes "list_all2 R xs ys" and "\<And>a b. R a b \<Longrightarrow> P a = Q b"
  shows "list_all2 R (filter P xs) (filter Q ys)"
  using assms(1)
proof (induction rule: list_all2_induct)
  case Nil
  show ?case by simp
next
  case (Cons a xs b ys)
  from assms(2) [OF Cons.hyps(1)] Cons show ?case by simp
qed

lemma article_count_pipeline_same:
  assumes "list_all2 (same_article m) c1 c2"
  shows "article_count_pipeline m date_str c1 = article_count_pipeline m date_str c2"
proof -
  have "stage (\<lambda>d. case date_only m (published d) of
                        Inl e \<Rightarrow> Inl e
                      | Inr s \<Rightarrow> Inr \<lparr>mediaTypeLower = toLower (mediaType d), dateOnly = s\<rparr>) c1 =
        stage (\<lambda>d. case date_only m (published d) of
                        Inl e \<Rightarrow> Inl e
                      | Inr s \<Rightarrow> Inr \<lparr>mediaTypeLower = toLower (mediaType d), dateOnly = s\<rparr>) c2"
  proof (rule stage_same [OF assms])
    fix a b assume ab: "same_article m a b"
    then have "mediaType a = mediaType b" by (simp add: same_article_def)
    then show "(case date_only m (published a) of
                        Inl e \<Rightarrow> Inl e
                      | Inr s \<Rightarrow> Inr \<lparr>mediaTypeLower = toLower (mediaType a), dateOnly = s\<rparr>) =
               (case date_only m (published b) of
                        Inl e \<Rightarrow> Inl e
                      | Inr s \<Rightarrow> Inr \<lparr>mediaTypeLower = toLower (mediaType b), dateOnly = s\<rparr>)"
      by (simp add: date_only_def same_article_date [OF ab] split: sum.splits)
  qed
  then show ?thesis by (simp add: article_count_pipeline_def)
qed

lemma recent_pipeline_same:
  assumes "list_all2 (same_article m) c1 c2"
  shows "recent_pipeline m source_literal c1 = recent_pipeline m source_literal c2"
proof -
  have "list_all2 (same_article m)
          (filter (\<lambda>d. toLower (source d) = source_literal) c1)
          (filter (\<lambda>d. toLower (source d) = source_literal) c2)"
    by (rule filter_same [OF assms]) (simp add: same_article_def)
  then have "stage (\<lambda>d. case published_date m (published d) of
                        Inl e \<Rightarrow> Inl e
                      | Inr t \<Rightarrow>
                          Inr \<lparr>row_title = title d, publishedDate = t,
                               date = map_option (dateToString m) t\<rparr>)
               (filter (\<lambda>d. toLower (source d) = source_literal) c1) =
             stage (\<lambda>d. case published_date m (published d) of
                        Inl e \<Rightarrow> Inl e
                      | Inr t \<Rightarrow>
                          Inr \<lparr>row_title = title d, publishedDate = t,
                               date = map_option (dateToString m) t\<rparr>)
               (filter (\<lambda>d. toLower (source d) = source_literal) c2)"
  proof (rule stage_same)
    fix a b assume ab: "same_article m a b"
    then have "title a = title b" by (simp add: same_article_def)
    then show "(case published_date m (published a) of
                        Inl e \<Rightarrow> Inl e
                      | Inr t \<Rightarrow>
                          Inr \<lparr>row_title = title a, publishedDate = t,
                               date = map_option (dateToString m) t\<rparr>) =
               (case published_date m (published b) of
                        Inl e \<Rightarrow> Inl e
                      | Inr t \<Rightarrow>
                          Inr \<lparr>row_title = title b, publishedDate = t,
                               date = map_option (dateToString m) t\<rparr>)"
      by (simp add: same_article_date [OF ab] split: sum.splits)
  qed
  then show ?thesis by (simp add: recent_pipeline_def)
qed

lemma year_keys_same:
  assumes "list_all2 (same_article m) c1 c2"
  shows "(case stage (\<lambda>d. case published_year m (published d) of
                        Inl e \<Rightarrow> Inl e
                      | Inr y \<Rightarrow> Inr (d, y = Some 2015)) c1 of
            Inl e \<Rightarrow> Inl e
          | Inr tested \<Rightarrow> Inr (map (\<lambda>(d, keep). source d) (filter snd tested))) =
         (case stage (\<lambda>d. case published_year m (published d) of
                        Inl e \<Rightarrow> Inl e
                      | Inr y \<Rightarrow> Inr (d, y = Some 2015)) c2 of
            Inl e \<Rightarrow> Inl e
          | Inr tested \<Rightarrow> Inr (map (\<lambda>(d, keep). source d) (filter snd tested)))"
  using assms
proof (induction rule: list_all2_induct)
  case Nil
  show ?case by simp
next
  case (Cons a xs b ys)
  from Cons.hyps(1) have y: "published_year m (published a) = published_year m (published b)"
    and s: "source a = source b"
    by (simp_all add: published_year_def same_article_date) (simp add: same_article_def)
  from Cons.IH show ?case
    by (auto simp: y s split: sum.splits)
qed

lemma top_sources_pipeline_same:
  assumes "list_all2 (same_article m) c1 c2"
  shows "top_sources_pipeline m c1 = top_sources_pipeline m c2"
proof -
  have "\<And>c. top_sources_pipeline m c =
          (case (case stage (\<lambda>d. case published_year m (published d) of
                        Inl e \<Rightarrow> Inl e
                      | Inr y \<Rightarrow> Inr (d, y = Some 2015)) c of
                   Inl e \<Rightarrow> Inl e
                 | Inr tested \<Rightarrow> Inr (map (\<lambda>(d, keep). source d) (filter snd tested))) of
             Inl e \<Rightarrow> Inl e
           | Inr ks \<Rightarrow> Inr (sort_by count_desc_id_asc (group_count ks)))"
    by (simp add: top_sources_pipeline_def split: sum.splits)
  then show ?thesis
    by (simp only: year_keys_same [OF assms])
qed

text \<open>
  Claim C4. Two collections that are the same article by article, except that
  \<^verbatim>\<open>published\<close> is a native date in one and a string that parses to that date in the
  other, give the same result in operations 2, 3 and 4, for every input.
\<close>

theorem representation_equivalence:
  assumes "list_all2 (same_article m) c1 c2"
  shows "handle_article_count py m c1 day_input = handle_article_count py m c2 day_input \<and>
         handle_top_sources_2015 m c1 = handle_top_sources_2015 m c2 \<and>
         handle_recent_by_source py m c1 source_input =
           handle_recent_by_source py m c2 source_input"
  unfolding handle_article_count_def handle_top_sources_2015_def handle_recent_by_source_def
    article_count_pipeline_same [OF assms] top_sources_pipeline_same [OF assms]
    recent_pipeline_same [OF assms]
  by simp

theorem representation_equivalence_witness:
  "handle_article_count example_python example_mongo string_collection ''2015-09-01'' =
     Inr (Counts 2 1 (NewsMore 1)) \<and>
   handle_top_sources_2015 example_mongo string_collection =
     Inr (TopSources [\<lparr>row_id = ''BBC'', row_count = 3\<rparr>]) \<and>
   map_sum id (\<lambda>out. case out of Recent rows \<Rightarrow> map row_title rows | _ \<Rightarrow> [])
     (handle_recent_by_source example_python example_mongo string_collection ''bbc'') =
     Inr [Val ''n1'', Val ''b1'', Val ''n3'', Val ''n4'']"
proof -
  have h: "list_all2 (same_article example_mongo) native_collection string_collection"
    by code_simp
  have n: "handle_article_count example_python example_mongo native_collection ''2015-09-01'' =
     Inr (Counts 2 1 (NewsMore 1))"
    "handle_top_sources_2015 example_mongo native_collection =
     Inr (TopSources [\<lparr>row_id = ''BBC'', row_count = 3\<rparr>])"
    "map_sum id (\<lambda>out. case out of Recent rows \<Rightarrow> map row_title rows | _ \<Rightarrow> [])
     (handle_recent_by_source example_python example_mongo native_collection ''bbc'') =
     Inr [Val ''n1'', Val ''b1'', Val ''n3'', Val ''n4'']"
    by code_simp+
  from representation_equivalence [OF h, of example_python "''2015-09-01''" "''bbc''"] n
  show ?thesis by (simp only:) 
qed

end
